theory Spec2Isabelle
  imports Main "HOL-Library.Word"
begin

section \<open>Python strings\<close>

text \<open>
  A Python \<open>str\<close> is a sequence of code points and \<open>len\<close> counts code points. The
  model uses \<open>string\<close>: one \<open>char\<close> is one code point, restricted to the code points
  0 to 255 (Latin-1). A backslash is written \<open>CHR 0x5C\<close>.
\<close>

definition startswith :: "string \<Rightarrow> string \<Rightarrow> bool" where
  "startswith s p \<longleftrightarrow> take (length p) s = p"

definition endswith :: "string \<Rightarrow> string \<Rightarrow> bool" where
  "endswith s p \<longleftrightarrow> length p \<le> length s \<and> drop (length s - length p) s = p"

text \<open>\<open>str.isspace\<close> on the code points below 256, which is what \<open>str.strip()\<close> removes.\<close>

definition py_isspace :: "char \<Rightarrow> bool" where
  "py_isspace c \<longleftrightarrow> (of_char c :: nat) \<in> {9, 10, 11, 12, 13, 28, 29, 30, 31, 32, 133, 160}"

definition py_strip :: "string \<Rightarrow> string" where
  "py_strip s = rev (dropWhile py_isspace (rev (dropWhile py_isspace s)))"

text \<open>\<open>s[:n]\<close> for a Python integer \<open>n\<close>: a negative \<open>n\<close> counts from the end.\<close>

definition py_slice_to :: "string \<Rightarrow> int \<Rightarrow> string" where
  "py_slice_to s n = (if 0 \<le> n then take (nat n) s else take (length s - nat (- n)) s)"

text \<open>
  \<open>s.replace(old, new)\<close>: every occurrence of \<open>old\<close>, leftmost first and not
  overlapping; an empty \<open>old\<close> matches before every character and at the end.
\<close>

fun replace_empty :: "string \<Rightarrow> string \<Rightarrow> string" where
  "replace_empty new [] = new"
| "replace_empty new (c # cs) = new @ c # replace_empty new cs"

fun replace_nonempty :: "string \<Rightarrow> string \<Rightarrow> string \<Rightarrow> string" where
  "replace_nonempty old new [] = []"
| "replace_nonempty old new (c # cs) =
     (if take (length old) (c # cs) = old
      then new @ replace_nonempty old new (drop (length old - 1) cs)
      else c # replace_nonempty old new cs)"

definition py_replace :: "string \<Rightarrow> string \<Rightarrow> string \<Rightarrow> string" where
  "py_replace s old new = (if old = [] then replace_empty new s else replace_nonempty old new s)"

text \<open>\<open>sep.join(xs)\<close>.\<close>

fun py_join :: "string \<Rightarrow> string list \<Rightarrow> string" where
  "py_join sep [] = []"
| "py_join sep [x] = x"
| "py_join sep (x # y # ys) = x @ sep @ py_join sep (y # ys)"

text \<open>\<open>str(n)\<close> for a non-negative integer: its decimal digits.\<close>

fun py_str_nat :: "nat \<Rightarrow> string" where
  "py_str_nat n =
     (if n < 10 then [''0123456789'' ! n]
      else py_str_nat (n div 10) @ [''0123456789'' ! (n mod 10)])"

declare py_str_nat.simps [simp del]

section \<open>Output naming: \<open>utils.sanitize_filename\<close>\<close>

text \<open>
  \<^verbatim>\<open>SAFE_FILENAME_PATTERN = re.compile(r"[^A-Za-z0-9._-]+")\<close>

  \<open>safe_char\<close> is the complement of the character class; \<open>SAFE_FILENAME_PATTERN_sub\<close>
  is \<open>SAFE_FILENAME_PATTERN.sub("_", s)\<close>: the \<open>+\<close> makes one match of each maximal
  run of characters outside the class, and each match becomes one underscore.
\<close>

definition safe_char :: "char \<Rightarrow> bool" where
  "safe_char c \<longleftrightarrow>
     (let n = (of_char c :: nat) in
        (of_char (CHR ''A'') \<le> n \<and> n \<le> of_char (CHR ''Z'')) \<or>
        (of_char (CHR ''a'') \<le> n \<and> n \<le> of_char (CHR ''z'')) \<or>
        (of_char (CHR ''0'') \<le> n \<and> n \<le> of_char (CHR ''9'')) \<or>
        c = CHR ''.'' \<or> c = CHR ''_'' \<or> c = CHR ''-'')"

function SAFE_FILENAME_PATTERN_sub :: "string \<Rightarrow> string" where
  "SAFE_FILENAME_PATTERN_sub [] = []"
| "SAFE_FILENAME_PATTERN_sub (c # cs) =
     (if safe_char c then c # SAFE_FILENAME_PATTERN_sub cs
      else CHR ''_'' # SAFE_FILENAME_PATTERN_sub (dropWhile (\<lambda>d. \<not> safe_char d) cs))"
  by pat_completeness auto
termination
  by (relation "measure length") (auto simp: length_dropWhile_le less_Suc_eq_le)

text \<open>
  \<^verbatim>\<open>
  def sanitize_filename(name: str, max_length: int = 255) -> str:
      sanitized = SAFE_FILENAME_PATTERN.sub("_", name.strip())
      if not sanitized:
          sanitized = "file"
      return sanitized[:max_length]
  \<close>
\<close>

definition sanitize_filename :: "string \<Rightarrow> int \<Rightarrow> string" where
  "sanitize_filename name max_length =
     (let sanitized = SAFE_FILENAME_PATTERN_sub (py_strip name);
          sanitized = (if sanitized = [] then ''file'' else sanitized)
      in py_slice_to sanitized max_length)"

text \<open>
  The reading of the specification that is compared with the code: every single character
  outside the class becomes one underscore.
\<close>

definition sanitize_per_character :: "string \<Rightarrow> string" where
  "sanitize_per_character name =
     (let sanitized = map (\<lambda>c. if safe_char c then c else CHR ''_'') (py_strip name);
          sanitized = (if sanitized = [] then ''file'' else sanitized)
      in take 255 sanitized)"

section \<open>Text decoding: \<open>utils.decode_text_bytes\<close>\<close>

text \<open>
  Bytes are 8-bit words; a decoded text is its list of code points, which for UTF-8 and
  cp1251 go beyond 255. A codec is a function from bytes to an optional text, \<open>None\<close>
  standing for \<open>UnicodeDecodeError\<close>. The UTF-8 and cp1251 codecs of the Python library
  are parameters. Latin-1 maps every byte to the code point of the same number.
\<close>

type_synonym bytes = "8 word list"
type_synonym codepoints = "nat list"
type_synonym codec = "bytes \<Rightarrow> codepoints option"

definition latin_1 :: codec where
  "latin_1 data = Some (map unat data)"

text \<open>
  \<open>data.decode("latin-1", errors="replace")\<close>: with the replace handler no error is
  raised; Latin-1 has no undecodable byte to replace.
\<close>

definition latin_1_replace :: "bytes \<Rightarrow> codepoints" where
  "latin_1_replace data = map unat data"

text \<open>
  \<^verbatim>\<open>
  def decode_text_bytes(data: bytes) -> str:
      for encoding in ("utf-8", "cp1251", "latin-1"):
          try:
              return data.decode(encoding)
          except UnicodeDecodeError:
              continue
      return data.decode("latin-1", errors="replace")
  \<close>
  \<open>decode_loop\<close> is the \<open>for\<close> loop: \<open>Some\<close> is a \<open>return\<close> from inside the loop, \<open>None\<close>
  is the loop running to its end.
\<close>

fun decode_loop :: "codec list \<Rightarrow> bytes \<Rightarrow> codepoints option" where
  "decode_loop [] data = None"
| "decode_loop (encoding # encodings) data =
     (case encoding data of Some s \<Rightarrow> Some s | None \<Rightarrow> decode_loop encodings data)"

definition decode_text_bytes :: "codec \<Rightarrow> codec \<Rightarrow> bytes \<Rightarrow> codepoints" where
  "decode_text_bytes utf_8 cp1251 data =
     (case decode_loop [utf_8, cp1251, latin_1] data of
        Some s \<Rightarrow> s
      | None \<Rightarrow> latin_1_replace data)"

section \<open>The policy model: \<open>playbooks.Rule\<close>, \<open>playbooks.Playbook\<close>\<close>

text \<open>
  An entry of \<open>Rule.patterns\<close> is a dictionary read with \<open>.get("pattern")\<close> and
  \<open>.get("case_insensitive")\<close>: \<open>pattern\<close> is \<open>None\<close> when the key is missing, and the
  flag is the truth value of what \<open>.get\<close> returns.
\<close>

record pattern_entry =
  pattern :: "string option"
  entry_case_insensitive :: bool

record Rule =
  rule_id :: string
  name :: string
  rule_type :: string
  enabled :: bool
  priority :: int
  action :: string
  replacement_template :: "string option"
  scope :: "string list"
  patterns :: "pattern_entry list"
  phrases :: "string list"
  dictionary :: "(string \<times> string) list"
  rule_keywords :: "string list"
  case_insensitive :: bool

text \<open>\<open>Rule(rule_id, name, rule_type)\<close> with the defaults of the dataclass.\<close>

definition default_Rule :: "string \<Rightarrow> string \<Rightarrow> string \<Rightarrow> Rule" where
  "default_Rule rid nm ty =
     \<lparr>rule_id = rid, name = nm, rule_type = ty, enabled = True, priority = 100,
      action = ''MASK'', replacement_template = None, scope = [], patterns = [],
      phrases = [], dictionary = [], rule_keywords = [], case_insensitive = False\<rparr>"

record Playbook =
  playbook_name :: string
  version :: string
  redaction_mode :: string
  mask_char :: string
  rules :: "Rule list"
  description :: "string option"
  updated_at :: "string option"
  updated_by :: "string option"

text \<open>\<open>Playbook(name, version)\<close> with the defaults of the dataclass.\<close>

definition default_Playbook :: "string \<Rightarrow> string \<Rightarrow> Playbook" where
  "default_Playbook nm ver =
     \<lparr>playbook_name = nm, version = ver, redaction_mode = ''FIXED_TOKEN'', mask_char = ''*'',
      rules = [], description = None, updated_at = None, updated_by = None\<rparr>"

section \<open>Python dictionaries\<close>

text \<open>
  A \<open>dict\<close> keeps its keys in insertion order: it is an association list with distinct
  keys. \<open>dict_get m k d\<close> is \<open>m.get(k, d)\<close>; \<open>dict_set m k v\<close> is \<open>m[k] = v\<close>, which keeps
  the place of a key that is present and appends a new key; \<open>dict_pop m k\<close> is
  \<open>m.pop(k, None)\<close>.
\<close>

definition dict_get :: "('k \<times> 'v) list \<Rightarrow> 'k \<Rightarrow> 'v \<Rightarrow> 'v" where
  "dict_get m k d = (case map_of m k of None \<Rightarrow> d | Some v \<Rightarrow> v)"

fun dict_set :: "('k \<times> 'v) list \<Rightarrow> 'k \<Rightarrow> 'v \<Rightarrow> ('k \<times> 'v) list" where
  "dict_set [] k v = [(k, v)]"
| "dict_set ((k', v') # m) k v = (if k' = k then (k, v) # m else (k', v') # dict_set m k v)"

definition dict_pop :: "('k \<times> 'v) list \<Rightarrow> 'k \<Rightarrow> ('k \<times> 'v) list" where
  "dict_pop m k = filter (\<lambda>kv. fst kv \<noteq> k) m"

section \<open>The match report: \<open>rules.RuleMatchReport\<close>\<close>

record RuleMatchReport =
  total_matches :: int
  matches_by_rule_type :: "(string \<times> int) list"
  matches_by_rule_id :: "(string \<times> int) list"

definition empty_report :: RuleMatchReport where
  "empty_report = \<lparr>total_matches = 0, matches_by_rule_type = [], matches_by_rule_id = []\<rparr>"

text \<open>
  \<^verbatim>\<open>
  def _register_match(report, rule, count):
      if count <= 0:
          return
      report.total_matches += count
      report.matches_by_rule_type[rule.rule_type] = report.matches_by_rule_type.get(rule.rule_type, 0) + count
      report.matches_by_rule_id[rule.rule_id] = report.matches_by_rule_id.get(rule.rule_id, 0) + count
  \<close>
  The report is mutated in place; the model returns the new report.
\<close>

definition register_match :: "RuleMatchReport \<Rightarrow> Rule \<Rightarrow> int \<Rightarrow> RuleMatchReport" where
  "register_match report rule count =
     (if count \<le> 0 then report
      else \<lparr>total_matches = total_matches report + count,
            matches_by_rule_type =
              dict_set (matches_by_rule_type report) (rule_type rule)
                (dict_get (matches_by_rule_type report) (rule_type rule) 0 + count),
            matches_by_rule_id =
              dict_set (matches_by_rule_id report) (rule_id rule)
                (dict_get (matches_by_rule_id report) (rule_id rule) 0 + count)\<rparr>)"

text \<open>
  \<^verbatim>\<open>
  def _merge_reports(target, report):
      target.total_matches += report.total_matches
      for key, value in report.matches_by_rule_type.items():
          target.matches_by_rule_type[key] = target.matches_by_rule_type.get(key, 0) + value
      for key, value in report.matches_by_rule_id.items():
          target.matches_by_rule_id[key] = target.matches_by_rule_id.get(key, 0) + value
  \<close>
\<close>

definition merge_counts :: "(string \<times> int) list \<Rightarrow> (string \<times> int) list \<Rightarrow> (string \<times> int) list" where
  "merge_counts target items =
     fold (\<lambda>(key, value) t. dict_set t key (dict_get t key 0 + value)) items target"

definition merge_reports :: "RuleMatchReport \<Rightarrow> RuleMatchReport \<Rightarrow> RuleMatchReport" where
  "merge_reports target report =
     \<lparr>total_matches = total_matches target + total_matches report,
      matches_by_rule_type = merge_counts (matches_by_rule_type target) (matches_by_rule_type report),
      matches_by_rule_id = merge_counts (matches_by_rule_id target) (matches_by_rule_id report)\<rparr>"

section \<open>The Python library under the engine\<close>

text \<open>
  The engine calls the regular-expression module and \<open>str.format\<close>. They are not part
  of the repository, so the engine is modelled over a record of these functions, and every
  general theorem holds for every such record:
  \<^item> \<open>re_finditer L pattern ignorecase text\<close> is
    \<open>list(re.compile(pattern, flags).finditer(text))\<close>, each match given by its span
    \<open>(m.start(), m.end())\<close>; \<open>None\<close> stands for \<open>re.error\<close>. \<open>compiled.sub\<close> scans
    the text in the same way, so that it rewrites exactly these spans.
  \<^item> \<open>re_expand L template matched\<close> is the expansion of a replacement string that
    contains a backslash, for a match of the text \<open>matched\<close> of a pattern without
    groups; \<open>None\<close> stands for \<open>re.error\<close>.
  \<^item> \<open>str_format L template rule_name rule_id\<close> is
    \<open>template.format(rule_name=rule_name, rule_id=rule_id)\<close>; \<open>None\<close> stands for the
    \<open>KeyError\<close>, \<open>IndexError\<close> or \<open>ValueError\<close> of a template that does not fit.
  The engine's functions return \<open>None\<close> when one of these calls raises.
\<close>

record pylib =
  re_finditer :: "string \<Rightarrow> bool \<Rightarrow> string \<Rightarrow> (nat \<times> nat) list option"
  re_expand :: "string \<Rightarrow> string \<Rightarrow> string option"
  str_format :: "string \<Rightarrow> string \<Rightarrow> string \<Rightarrow> string option"

text \<open>
  \<open>re.escape\<close> (Python 3.7 and later) puts a backslash before each of the characters
  \<^verbatim>\<open>()[]{}?*+-|^$\.&~#\<close>, the space and the control characters tab, newline, carriage
  return, vertical tab and form feed.
\<close>

definition re_special_chars :: "char list" where
  "re_special_chars =
     ''()[]{}?*+-|^$.&~# '' @ [CHR 0x5C, CHR 0x09, CHR 0x0A, CHR 0x0D, CHR 0x0B, CHR 0x0C]"

definition re_escape :: "string \<Rightarrow> string" where
  "re_escape s = concat (map (\<lambda>c. if c \<in> set re_special_chars then [CHR 0x5C, c] else [c]) s)"

text \<open>
  \<open>compiled.sub(repl, text)\<close> over the spans of the matches: the text between the matches
  is kept, each match is replaced by \<open>repl\<close> of the matched text \<open>m.group(0)\<close>. \<open>pos\<close> is
  the end of the previous match. A \<open>repl\<close> that raises makes the whole call raise.
\<close>

fun re_sub_spans ::
  "(string \<Rightarrow> string option) \<Rightarrow> (nat \<times> nat) list \<Rightarrow> nat \<Rightarrow> string \<Rightarrow> string option" where
  "re_sub_spans repl [] pos text = Some (drop pos text)"
| "re_sub_spans repl ((s, e) # spans) pos text =
     (case repl (take (e - s) (drop s text)) of
        None \<Rightarrow> None
      | Some r \<Rightarrow>
          (case re_sub_spans repl spans e text of
             None \<Rightarrow> None
           | Some rest \<Rightarrow> Some (take (s - pos) (drop pos text) @ r @ rest)))"

text \<open>
  \<open>compiled.sub(repl, text)\<close> with a string \<open>repl\<close>: a string without a backslash is
  used as it is, any other is a template that is expanded at each match.
\<close>

definition re_sub_template ::
  "pylib \<Rightarrow> string \<Rightarrow> (nat \<times> nat) list \<Rightarrow> string \<Rightarrow> string option" where
  "re_sub_template L repl spans text =
     (if CHR 0x5C \<in> set repl then re_sub_spans (re_expand L repl) spans 0 text
      else re_sub_spans (\<lambda>_. Some repl) spans 0 text)"

section \<open>The redaction engine: \<open>rules.py\<close>\<close>

text \<open>The functions of the module keep their names, without the leading underscore.\<close>

definition PLACEHOLDER_PREFIX :: string where
  "PLACEHOLDER_PREFIX = ''__BLUR_ALLOWLIST_''"

text \<open>\<^verbatim>\<open>f"{PLACEHOLDER_PREFIX}{counter}__"\<close>\<close>

definition placeholder_token :: "nat \<Rightarrow> string" where
  "placeholder_token counter = PLACEHOLDER_PREFIX @ py_str_nat counter @ ''__''"

text \<open>
  \<^verbatim>\<open>
  def _rules_by_type(playbook, rule_type):
      rules = [rule for rule in playbook.rules if rule.rule_type == rule_type and rule.enabled]
      return sorted(rules, key=lambda rule: rule.priority)
  \<close>
  \<open>sorted\<close> is stable, and so is \<open>sort_key\<close>.
\<close>

definition rules_by_type :: "Playbook \<Rightarrow> string \<Rightarrow> Rule list" where
  "rules_by_type playbook ty =
     sort_key priority (filter (\<lambda>rule. rule_type rule = ty \<and> enabled rule) (rules playbook))"

text \<open>
  \<^verbatim>\<open>
  def _apply_allowlist(text, rules, placeholders):
      protected = text
      counter = 0
      for rule in rules:
          for phrase in rule.phrases:
              counter += 1
              placeholder = f"{PLACEHOLDER_PREFIX}{counter}__"
              placeholders[placeholder] = phrase
              protected = protected.replace(phrase, placeholder)
          for pattern_entry in rule.patterns:
              pattern = pattern_entry.get("pattern")
              flags = 0
              if rule.case_insensitive or pattern_entry.get("case_insensitive"):
                  flags |= re.IGNORECASE
              if not pattern:
                  continue

              def _replacement(match):
                  nonlocal counter
                  counter += 1
                  placeholder = f"{PLACEHOLDER_PREFIX}{counter}__"
                  placeholders[placeholder] = match.group(0)
                  return placeholder

              protected = re.sub(pattern, _replacement, protected, flags=flags)
      return protected
  \<close>
  The state of the loops is the triple of \<open>protected\<close>, \<open>counter\<close> and \<open>placeholders\<close>.
  \<open>protect_matches\<close> is the \<open>re.sub\<close> with the callback \<open>_replacement\<close>, which is called
  once for each match, from left to right.
\<close>

type_synonym allowlist_state = "string \<times> nat \<times> (string \<times> string) list"

fun protect_matches ::
  "(nat \<times> nat) list \<Rightarrow> nat \<Rightarrow> string \<Rightarrow> nat \<times> (string \<times> string) list \<Rightarrow> allowlist_state" where
  "protect_matches [] pos text (counter, placeholders) = (drop pos text, counter, placeholders)"
| "protect_matches ((s, e) # spans) pos text (counter, placeholders) =
     (let counter = counter + 1;
          placeholder = placeholder_token counter;
          placeholders = dict_set placeholders placeholder (take (e - s) (drop s text));
          (rest, counter', placeholders') = protect_matches spans e text (counter, placeholders)
      in (take (s - pos) (drop pos text) @ placeholder @ rest, counter', placeholders'))"

fun allowlist_phrases :: "string list \<Rightarrow> allowlist_state \<Rightarrow> allowlist_state" where
  "allowlist_phrases [] st = st"
| "allowlist_phrases (phrase # rest) (protected, counter, placeholders) =
     (let counter = counter + 1;
          placeholder = placeholder_token counter;
          placeholders = dict_set placeholders placeholder phrase;
          protected = py_replace protected phrase placeholder
      in allowlist_phrases rest (protected, counter, placeholders))"

fun allowlist_patterns ::
  "pylib \<Rightarrow> Rule \<Rightarrow> pattern_entry list \<Rightarrow> allowlist_state \<Rightarrow> allowlist_state option" where
  "allowlist_patterns L rule [] st = Some st"
| "allowlist_patterns L rule (entry # rest) (protected, counter, placeholders) =
     (case pattern entry of
        None \<Rightarrow> allowlist_patterns L rule rest (protected, counter, placeholders)
      | Some p \<Rightarrow>
          if p = [] then allowlist_patterns L rule rest (protected, counter, placeholders)
          else
            (case re_finditer L p (case_insensitive rule \<or> entry_case_insensitive entry) protected of
               None \<Rightarrow> None
             | Some spans \<Rightarrow>
                 allowlist_patterns L rule rest
                   (protect_matches spans 0 protected (counter, placeholders))))"

fun allowlist_rules :: "pylib \<Rightarrow> Rule list \<Rightarrow> allowlist_state \<Rightarrow> allowlist_state option" where
  "allowlist_rules L [] st = Some st"
| "allowlist_rules L (rule # rest) st =
     (case allowlist_patterns L rule (patterns rule) (allowlist_phrases (phrases rule) st) of
        None \<Rightarrow> None
      | Some st' \<Rightarrow> allowlist_rules L rest st')"

text \<open>The result is \<open>protected\<close> together with the dictionary \<open>placeholders\<close> that the
  caller passed in empty.\<close>

definition apply_allowlist ::
  "pylib \<Rightarrow> string \<Rightarrow> Rule list \<Rightarrow> (string \<times> (string \<times> string) list) option" where
  "apply_allowlist L text rs =
     (case allowlist_rules L rs (text, 0, []) of
        None \<Rightarrow> None
      | Some (protected, counter, placeholders) \<Rightarrow> Some (protected, placeholders))"

text \<open>\<open>x or d\<close> for an optional string \<open>x\<close>: \<open>None\<close> and the empty string are false.\<close>

definition or_default :: "string option \<Rightarrow> string \<Rightarrow> string" where
  "or_default x d = (case x of None \<Rightarrow> d | Some s \<Rightarrow> if s = [] then d else s)"

text \<open>
  \<^verbatim>\<open>
  def _replacement_for_match(match_text, rule, playbook):
      if rule.action == "REMOVE":
          return ""
      if rule.action == "REPLACE":
          template = rule.replacement_template or "[BLURRED:{rule_name}]"
          return template.format(rule_name=rule.name, rule_id=rule.rule_id)
      if playbook.redaction_mode == "SAME_LENGTH_MASK":
          mask_char = playbook.mask_char or "*"
          return mask_char * len(match_text)
      return rule.replacement_template or "[BLURRED]"
  \<close>
\<close>

definition replacement_for_match :: "pylib \<Rightarrow> string \<Rightarrow> Rule \<Rightarrow> Playbook \<Rightarrow> string option" where
  "replacement_for_match L match_text rule playbook =
     (if action rule = ''REMOVE'' then Some []
      else if action rule = ''REPLACE'' then
        str_format L (or_default (replacement_template rule) ''[BLURRED:{rule_name}]'')
          (name rule) (rule_id rule)
      else if redaction_mode playbook = ''SAME_LENGTH_MASK'' then
        Some (concat (replicate (length match_text) (or_default (Some (mask_char playbook)) ''*'')))
      else Some (or_default (replacement_template rule) ''[BLURRED]''))"

text \<open>
  \<^verbatim>\<open>
  def _apply_dictionary(text, rule, playbook, report, dry_run):
      updated = text
      for target, replacement in rule.dictionary.items():
          if rule.case_insensitive:
              pattern = re.compile(re.escape(target), re.IGNORECASE)
          else:
              pattern = re.compile(re.escape(target))
          matches = list(pattern.finditer(updated))
          if matches:
              _register_match(report, rule, len(matches))
              if dry_run:
                  continue
              if rule.action == "REMOVE":
                  updated = pattern.sub("", updated)
              elif rule.action == "REPLACE":
                  updated = pattern.sub(replacement, updated)
              else:
                  updated = pattern.sub(lambda m: _replacement_for_match(m.group(0), rule, playbook), updated)
      return updated
  \<close>
  The state of the loop is the pair of \<open>updated\<close> and the report.
\<close>

type_synonym engine_state = "string \<times> RuleMatchReport"

fun dictionary_items ::
  "pylib \<Rightarrow> Rule \<Rightarrow> Playbook \<Rightarrow> bool \<Rightarrow> (string \<times> string) list \<Rightarrow> engine_state \<Rightarrow>
   engine_state option" where
  "dictionary_items L rule playbook dry_run [] st = Some st"
| "dictionary_items L rule playbook dry_run ((target, replacement) # rest) (updated, report) =
     (case re_finditer L (re_escape target) (case_insensitive rule) updated of
        None \<Rightarrow> None
      | Some matches \<Rightarrow>
          if matches = [] then dictionary_items L rule playbook dry_run rest (updated, report)
          else
            let report = register_match report rule (int (length matches)) in
            if dry_run then dictionary_items L rule playbook dry_run rest (updated, report)
            else
              (case (if action rule = ''REMOVE'' then re_sub_template L [] matches updated
                     else if action rule = ''REPLACE'' then
                       re_sub_template L replacement matches updated
                     else
                       re_sub_spans (\<lambda>m. replacement_for_match L m rule playbook)
                         matches 0 updated) of
                 None \<Rightarrow> None
               | Some updated \<Rightarrow> dictionary_items L rule playbook dry_run rest (updated, report)))"

definition apply_dictionary ::
  "pylib \<Rightarrow> string \<Rightarrow> Rule \<Rightarrow> Playbook \<Rightarrow> RuleMatchReport \<Rightarrow> bool \<Rightarrow> engine_state option" where
  "apply_dictionary L text rule playbook report dry_run =
     dictionary_items L rule playbook dry_run (dictionary rule) (text, report)"

text \<open>
  \<^verbatim>\<open>
  def _apply_regex_patterns(text, rule, playbook, report, dry_run):
      updated = text
      for entry in rule.patterns:
          pattern = entry.get("pattern")
          if not pattern:
              continue
          flags = 0
          if rule.case_insensitive or entry.get("case_insensitive"):
              flags |= re.IGNORECASE
          compiled = re.compile(pattern, flags)
          matches = list(compiled.finditer(updated))
          if matches:
              _register_match(report, rule, len(matches))
              if dry_run:
                  continue
              updated = compiled.sub(lambda m: _replacement_for_match(m.group(0), rule, playbook), updated)
      return updated
  \<close>
\<close>

fun regex_entries ::
  "pylib \<Rightarrow> Rule \<Rightarrow> Playbook \<Rightarrow> bool \<Rightarrow> pattern_entry list \<Rightarrow> engine_state \<Rightarrow>
   engine_state option" where
  "regex_entries L rule playbook dry_run [] st = Some st"
| "regex_entries L rule playbook dry_run (entry # rest) (updated, report) =
     (case pattern entry of
        None \<Rightarrow> regex_entries L rule playbook dry_run rest (updated, report)
      | Some p \<Rightarrow>
          if p = [] then regex_entries L rule playbook dry_run rest (updated, report)
          else
            (case re_finditer L p (case_insensitive rule \<or> entry_case_insensitive entry) updated of
               None \<Rightarrow> None
             | Some matches \<Rightarrow>
                 if matches = [] then regex_entries L rule playbook dry_run rest (updated, report)
                 else
                   let report = register_match report rule (int (length matches)) in
                   if dry_run then regex_entries L rule playbook dry_run rest (updated, report)
                   else
                     (case re_sub_spans (\<lambda>m. replacement_for_match L m rule playbook)
                             matches 0 updated of
                        None \<Rightarrow> None
                      | Some updated \<Rightarrow>
                          regex_entries L rule playbook dry_run rest (updated, report))))"

definition apply_regex_patterns ::
  "pylib \<Rightarrow> string \<Rightarrow> Rule \<Rightarrow> Playbook \<Rightarrow> RuleMatchReport \<Rightarrow> bool \<Rightarrow> engine_state option" where
  "apply_regex_patterns L text rule playbook report dry_run =
     regex_entries L rule playbook dry_run (patterns rule) (text, report)"

text \<open>
  \<^verbatim>\<open>
  def _apply_keywords(text, rule, playbook, report, dry_run):
      updated = text
      if not rule.keywords:
          return updated
      escaped = [re.escape(keyword) for keyword in rule.keywords]
      pattern = "|".join(escaped)
      flags = re.IGNORECASE if rule.case_insensitive else 0
      compiled = re.compile(pattern, flags)
      matches = list(compiled.finditer(updated))
      if matches:
          _register_match(report, rule, len(matches))
          if not dry_run:
              updated = compiled.sub(lambda m: _replacement_for_match(m.group(0), rule, playbook), updated)
      return updated
  \<close>
\<close>

definition apply_keywords ::
  "pylib \<Rightarrow> string \<Rightarrow> Rule \<Rightarrow> Playbook \<Rightarrow> RuleMatchReport \<Rightarrow> bool \<Rightarrow> engine_state option" where
  "apply_keywords L text rule playbook report dry_run =
     (if rule_keywords rule = [] then Some (text, report)
      else
        (case re_finditer L (py_join ''|'' (map re_escape (rule_keywords rule)))
                (case_insensitive rule) text of
           None \<Rightarrow> None
         | Some matches \<Rightarrow>
             if matches = [] then Some (text, report)
             else
               let report = register_match report rule (int (length matches)) in
               if dry_run then Some (text, report)
               else
                 (case re_sub_spans (\<lambda>m. replacement_for_match L m rule playbook)
                         matches 0 text of
                    None \<Rightarrow> None
                  | Some updated \<Rightarrow> Some (updated, report))))"

text \<open>
  \<^verbatim>\<open>
  def _apply_rule(text, rule, playbook, report, dry_run=False):
      if rule.rule_type == "dictionary_entities":
          return _apply_dictionary(text, rule, playbook, report, dry_run)
      if rule.rule_type == "regex_patterns":
          return _apply_regex_patterns(text, rule, playbook, report, dry_run)
      if rule.rule_type == "keyword_list":
          return _apply_keywords(text, rule, playbook, report, dry_run)
      return text
  \<close>
\<close>

definition apply_rule ::
  "pylib \<Rightarrow> string \<Rightarrow> Rule \<Rightarrow> Playbook \<Rightarrow> RuleMatchReport \<Rightarrow> bool \<Rightarrow> engine_state option" where
  "apply_rule L text rule playbook report dry_run =
     (if rule_type rule = ''dictionary_entities'' then
        apply_dictionary L text rule playbook report dry_run
      else if rule_type rule = ''regex_patterns'' then
        apply_regex_patterns L text rule playbook report dry_run
      else if rule_type rule = ''keyword_list'' then
        apply_keywords L text rule playbook report dry_run
      else Some (text, report))"

text \<open>
  \<^verbatim>\<open>
  def apply_rules(text, playbook, dry_run=False):
      report = RuleMatchReport()
      placeholders = {}

      allowlist_rules = _rules_by_type(playbook, "allowlist")
      protected_text = _apply_allowlist(text, allowlist_rules, placeholders)

      for rule_type in ("dictionary_entities", "regex_patterns", "keyword_list"):
          for rule in _rules_by_type(playbook, rule_type):
              protected_text = _apply_rule(protected_text, rule, playbook, report, dry_run=dry_run)

      restored = protected_text
      for placeholder, original in placeholders.items():
          restored = restored.replace(placeholder, original)

      return restored, report
  \<close>
  \<open>rule_loop\<close> is the inner loop over the rules of one type, \<open>rule_type_loop\<close> the outer
  loop over the three types, \<open>restore\<close> the last loop.
\<close>

fun rule_loop ::
  "pylib \<Rightarrow> Playbook \<Rightarrow> bool \<Rightarrow> Rule list \<Rightarrow> engine_state \<Rightarrow> engine_state option" where
  "rule_loop L playbook dry_run [] st = Some st"
| "rule_loop L playbook dry_run (rule # rest) (protected_text, report) =
     (case apply_rule L protected_text rule playbook report dry_run of
        None \<Rightarrow> None
      | Some st' \<Rightarrow> rule_loop L playbook dry_run rest st')"

fun rule_type_loop ::
  "pylib \<Rightarrow> Playbook \<Rightarrow> bool \<Rightarrow> string list \<Rightarrow> engine_state \<Rightarrow> engine_state option" where
  "rule_type_loop L playbook dry_run [] st = Some st"
| "rule_type_loop L playbook dry_run (ty # rest) st =
     (case rule_loop L playbook dry_run (rules_by_type playbook ty) st of
        None \<Rightarrow> None
      | Some st' \<Rightarrow> rule_type_loop L playbook dry_run rest st')"

definition restore :: "(string \<times> string) list \<Rightarrow> string \<Rightarrow> string" where
  "restore placeholders protected_text =
     fold (\<lambda>(placeholder, original) restored. py_replace restored placeholder original)
       placeholders protected_text"

definition apply_rules :: "pylib \<Rightarrow> string \<Rightarrow> Playbook \<Rightarrow> bool \<Rightarrow> engine_state option" where
  "apply_rules L text playbook dry_run =
     (case apply_allowlist L text (rules_by_type playbook ''allowlist'') of
        None \<Rightarrow> None
      | Some (protected_text, placeholders) \<Rightarrow>
          (case rule_type_loop L playbook dry_run
                  [''dictionary_entities'', ''regex_patterns'', ''keyword_list'']
                  (protected_text, empty_report) of
             None \<Rightarrow> None
           | Some (protected_text, report) \<Rightarrow> Some (restore placeholders protected_text, report)))"

section \<open>The structural cleaner: \<open>cleaner_docx.py\<close>\<close>

text \<open>
  An lxml element has a tag, attributes, a text before its first child, its children, and
  a tail: the text that follows its end tag and that moves, and is removed, with the
  element. A tag is written with its prefix, \<open>w:del\<close> for \<open>del\<close> in the
  WordprocessingML namespace. The parser and the serialiser of lxml are parameters:
  \<open>fromstring X data\<close> is \<open>etree.fromstring(data)\<close>, \<open>None\<close> standing for
  \<open>XMLSyntaxError\<close>, and \<open>tostring X tree\<close> is
  \<open>etree.tostring(tree, xml_declaration=True, encoding="UTF-8")\<close>.
\<close>

datatype xml =
  Element (tag: string) (attrib: "(string \<times> string) list") (node_text: "string option")
    (children: "xml list") (tail: "string option")

record xmllib =
  fromstring :: "bytes \<Rightarrow> xml option"
  tostring :: "xml \<Rightarrow> bytes"

text \<open>
  \<^verbatim>\<open>
  for node in tree.xpath(f".//{tag}", namespaces=NSMAP):
      parent = node.getparent()
      if parent is not None:
          parent.remove(node)
  \<close>
  \<open>.//tag\<close> selects the elements with this tag below the root, in document order, never
  the root itself. The list is built before the loop; removing a node that lies inside a
  subtree already removed changes nothing in the tree. So the loop removes, at every
  level below the root, the children with this tag, each with its subtree and tail.
\<close>

fun remove_nodes :: "string \<Rightarrow> xml \<Rightarrow> xml" where
  "remove_nodes t (Element tg a tx cs ta) =
     Element tg a tx (map (remove_nodes t) (filter (\<lambda>c. tag c \<noteq> t) cs)) ta"

text \<open>
  \<^verbatim>\<open>
  def _unwrap(node):
      parent = node.getparent()
      if parent is None:
          return
      index = parent.index(node)
      for child in list(node):
          parent.insert(index, child)
          index += 1
      parent.remove(node)

  for node in tree.xpath(f".//{tag}", namespaces=NSMAP):
      _unwrap(node)
  \<close>
  \<open>parent.insert\<close> moves a child, with its tail, out of the wrapper and into the parent,
  before the wrapper; the wrapper, left without children, is then removed with its own text
  and tail. A wrapper inside a wrapper is in the list after the outer one and is unwrapped
  where the outer one has put it. So at every level below the root each child with this
  tag is replaced by its own children, unwrapped in the same way.
\<close>

fun unwrap_nodes :: "string \<Rightarrow> xml \<Rightarrow> xml" where
  "unwrap_nodes t (Element tg a tx cs ta) =
     Element tg a tx
       (concat (map (\<lambda>c. if tag c = t then children (unwrap_nodes t c) else [unwrap_nodes t c]) cs))
       ta"

text \<open>
  \<^verbatim>\<open>
  def _accept_revisions(tree):
      for tag in ("w:del", "w:moveFrom"):
          for node in tree.xpath(f".//{tag}", namespaces=NSMAP):
              parent = node.getparent()
              if parent is not None:
                  parent.remove(node)
      for tag in ("w:ins", "w:moveTo"):
          for node in tree.xpath(f".//{tag}", namespaces=NSMAP):
              _unwrap(node)
  \<close>
\<close>

definition accept_revisions :: "xml \<Rightarrow> xml" where
  "accept_revisions tree =
     fold unwrap_nodes [''w:ins'', ''w:moveTo''] (fold remove_nodes [''w:del'', ''w:moveFrom''] tree)"

text \<open>
  \<^verbatim>\<open>
  def _remove_comments(tree):
      for tag in ("w:commentRangeStart", "w:commentRangeEnd", "w:commentReference"):
          for node in tree.xpath(f".//{tag}", namespaces=NSMAP):
              parent = node.getparent()
              if parent is not None:
                  parent.remove(node)
  \<close>
\<close>

definition remove_comments :: "xml \<Rightarrow> xml" where
  "remove_comments tree =
     fold remove_nodes [''w:commentRangeStart'', ''w:commentRangeEnd'', ''w:commentReference''] tree"

text \<open>
  \<^verbatim>\<open>
  def _remove_comments_part(parts):
      cleaned = dict(parts)
      if "word/comments.xml" in cleaned:
          cleaned.pop("word/comments.xml", None)
      return cleaned
  \<close>
\<close>

definition remove_comments_part :: "(string \<times> bytes) list \<Rightarrow> (string \<times> bytes) list" where
  "remove_comments_part parts =
     (if ''word/comments.xml'' \<in> fst ` set parts then dict_pop parts ''word/comments.xml''
      else parts)"

text \<open>
  \<^verbatim>\<open>
  def _wipe_core_properties(tree):
      for element in tree.xpath("//*", namespaces=NSMAP):
          if element.text:
              element.text = ""
      for tag in ("dc:creator", "cp:lastModifiedBy", "dcterms:created", "dcterms:modified"):
          for node in tree.xpath(f".//{tag}", namespaces=NSMAP):
              node.text = ""

  def _wipe_custom_properties(tree):
      for element in tree.xpath("//*", namespaces=NSMAP):
          if element.text:
              element.text = ""
  \<close>
  \<open>//*\<close> selects every element of the document, the root too.
\<close>

fun blank_texts :: "xml \<Rightarrow> xml" where
  "blank_texts (Element tg a tx cs ta) =
     Element tg a (case tx of None \<Rightarrow> None | Some s \<Rightarrow> Some []) (map blank_texts cs) ta"

fun clear_text :: "string \<Rightarrow> xml \<Rightarrow> xml" where
  "clear_text t (Element tg a tx cs ta) =
     Element tg a (if tg = t then Some [] else tx) (map (clear_text t) cs) ta"

definition clear_text_below :: "string \<Rightarrow> xml \<Rightarrow> xml" where
  "clear_text_below t tree =
     Element (tag tree) (attrib tree) (node_text tree) (map (clear_text t) (children tree)) (tail tree)"

definition wipe_core_properties :: "xml \<Rightarrow> xml" where
  "wipe_core_properties tree =
     fold clear_text_below [''dc:creator'', ''cp:lastModifiedBy'', ''dcterms:created'', ''dcterms:modified'']
       (blank_texts tree)"

definition wipe_custom_properties :: "xml \<Rightarrow> xml" where
  "wipe_custom_properties tree = blank_texts tree"

text \<open>
  \<^verbatim>\<open>
  def clean_docx_parts(parts):
      cleaned = dict(parts)
      for name, data in parts.items():
          if not name.endswith(".xml"):
              continue
          try:
              tree = etree.fromstring(data)
          except etree.XMLSyntaxError:
              continue
          if name.startswith("word/"):
              _accept_revisions(tree)
              _remove_comments(tree)
          if name == "docProps/core.xml":
              _wipe_core_properties(tree)
          if name == "docProps/custom.xml":
              _wipe_custom_properties(tree)
          cleaned[name] = etree.tostring(tree, xml_declaration=True, encoding="UTF-8")

      cleaned = _remove_comments_part(cleaned)
      return cleaned
  \<close>
  \<open>clean_part\<close> is the body of the loop for one part: \<open>None\<close> when the body ends in a
  \<open>continue\<close>, else the bytes stored under the part's name.
\<close>

definition clean_part :: "xmllib \<Rightarrow> string \<Rightarrow> bytes \<Rightarrow> bytes option" where
  "clean_part X part_name data =
     (if \<not> endswith part_name ''.xml'' then None
      else
        (case fromstring X data of
           None \<Rightarrow> None
         | Some tree \<Rightarrow>
             let tree = (if startswith part_name ''word/'' then remove_comments (accept_revisions tree)
                         else tree);
                 tree = (if part_name = ''docProps/core.xml'' then wipe_core_properties tree else tree);
                 tree = (if part_name = ''docProps/custom.xml'' then wipe_custom_properties tree else tree)
             in Some (tostring X tree)))"

definition clean_docx_parts :: "xmllib \<Rightarrow> (string \<times> bytes) list \<Rightarrow> (string \<times> bytes) list" where
  "clean_docx_parts X parts =
     remove_comments_part
       (fold (\<lambda>(part_name, data) cleaned.
                case clean_part X part_name data of
                  None \<Rightarrow> cleaned
                | Some out \<Rightarrow> dict_set cleaned part_name out)
          parts parts)"

section \<open>The container processor: \<open>processor_docx._apply_rules_to_parts\<close>\<close>

text \<open>
  \<^verbatim>\<open>
  def _apply_rules_to_parts(parts, playbook, dry_run):
      updated_parts = dict(parts)
      aggregate = RuleMatchReport()
      for name, data in parts.items():
          if not name.startswith("word/") or not name.endswith(".xml"):
              continue
          try:
              tree = etree.fromstring(data)
          except etree.XMLSyntaxError:
              continue
          modified = False
          for text_node in tree.xpath(".//w:t", namespaces=NSMAP):
              if text_node.text is None:
                  continue
              redacted_text, report = apply_rules(text_node.text, playbook, dry_run=dry_run)
              _merge_reports(aggregate, report)
              if not dry_run and redacted_text != text_node.text:
                  text_node.text = redacted_text
                  modified = True
          if modified:
              updated_parts[name] = etree.tostring(tree, xml_declaration=True, encoding="UTF-8")
      return updated_parts, aggregate
  \<close>
  \<open>redact_node\<close> and \<open>redact_nodes\<close> are the loop over the \<open>w:t\<close> elements below the
  root, in document order; their state is the pair of \<open>aggregate\<close> and \<open>modified\<close>.
\<close>

fun redact_node ::
    "pylib \<Rightarrow> Playbook \<Rightarrow> bool \<Rightarrow> xml \<Rightarrow> RuleMatchReport \<times> bool \<Rightarrow>
     (xml \<times> RuleMatchReport \<times> bool) option"
  and redact_nodes ::
    "pylib \<Rightarrow> Playbook \<Rightarrow> bool \<Rightarrow> xml list \<Rightarrow> RuleMatchReport \<times> bool \<Rightarrow>
     (xml list \<times> RuleMatchReport \<times> bool) option" where
  "redact_node L playbook dry_run (Element tg a tx cs ta) (aggregate, modified) =
     (case (if tg = ''w:t'' then tx else None) of
        None \<Rightarrow>
          (case redact_nodes L playbook dry_run cs (aggregate, modified) of
             None \<Rightarrow> None
           | Some (cs', st) \<Rightarrow> Some (Element tg a tx cs' ta, st))
      | Some t \<Rightarrow>
          (case apply_rules L t playbook dry_run of
             None \<Rightarrow> None
           | Some (redacted_text, report) \<Rightarrow>
               let aggregate = merge_reports aggregate report;
                   changed = (\<not> dry_run \<and> redacted_text \<noteq> t)
               in (case redact_nodes L playbook dry_run cs (aggregate, modified \<or> changed) of
                     None \<Rightarrow> None
                   | Some (cs', st) \<Rightarrow>
                       Some (Element tg a (if changed then Some redacted_text else tx) cs' ta, st))))"
| "redact_nodes L playbook dry_run [] st = Some ([], st)"
| "redact_nodes L playbook dry_run (c # cs) st =
     (case redact_node L playbook dry_run c st of
        None \<Rightarrow> None
      | Some (c', st') \<Rightarrow>
          (case redact_nodes L playbook dry_run cs st' of
             None \<Rightarrow> None
           | Some (cs', st'') \<Rightarrow> Some (c' # cs', st'')))"

type_synonym parts_state = "(string \<times> bytes) list \<times> RuleMatchReport"

fun parts_loop ::
  "pylib \<Rightarrow> xmllib \<Rightarrow> Playbook \<Rightarrow> bool \<Rightarrow> (string \<times> bytes) list \<Rightarrow> parts_state \<Rightarrow>
   parts_state option" where
  "parts_loop L X playbook dry_run [] st = Some st"
| "parts_loop L X playbook dry_run ((part_name, data) # rest) (updated_parts, aggregate) =
     (if \<not> startswith part_name ''word/'' \<or> \<not> endswith part_name ''.xml'' then
        parts_loop L X playbook dry_run rest (updated_parts, aggregate)
      else
        (case fromstring X data of
           None \<Rightarrow> parts_loop L X playbook dry_run rest (updated_parts, aggregate)
         | Some tree \<Rightarrow>
             (case redact_nodes L playbook dry_run (children tree) (aggregate, False) of
                None \<Rightarrow> None
              | Some (cs', aggregate', modified) \<Rightarrow>
                  parts_loop L X playbook dry_run rest
                    (if modified then
                       dict_set updated_parts part_name
                         (tostring X (Element (tag tree) (attrib tree) (node_text tree) cs' (tail tree)))
                     else updated_parts,
                     aggregate'))))"

definition apply_rules_to_parts ::
  "pylib \<Rightarrow> xmllib \<Rightarrow> (string \<times> bytes) list \<Rightarrow> Playbook \<Rightarrow> bool \<Rightarrow> parts_state option" where
  "apply_rules_to_parts L X parts playbook dry_run =
     parts_loop L X playbook dry_run parts (parts, empty_report)"

section \<open>A fragment of the Python library, for running the engine\<close>

text \<open>
  To run the engine on concrete inputs, the three library functions are implemented on a
  fragment: patterns made of literal characters, escaped punctuation (which is what
  \<open>re.escape\<close> produces), \<open>\d\<close>, a count \<open>{n}\<close> after a character or \<open>\d\<close>, and
  \<open>|\<close> between alternatives; replacement templates with the escapes for backslash,
  newline and tab; format strings with the fields \<open>{rule_name}\<close> and \<open>{rule_id}\<close> and
  doubled braces. On an input outside the fragment these functions return \<open>None\<close>; only
  their values on the fragment are meant to agree with Python.
\<close>

datatype re_atom = Lit char | Digit

definition is_digit :: "char \<Rightarrow> bool" where
  "is_digit c \<longleftrightarrow> of_char (CHR ''0'') \<le> (of_char c :: nat) \<and> (of_char c :: nat) \<le> of_char (CHR ''9'')"

definition is_ascii_alnum :: "char \<Rightarrow> bool" where
  "is_ascii_alnum c \<longleftrightarrow>
     (let n = (of_char c :: nat) in
        (of_char (CHR ''A'') \<le> n \<and> n \<le> of_char (CHR ''Z'')) \<or>
        (of_char (CHR ''a'') \<le> n \<and> n \<le> of_char (CHR ''z'')) \<or>
        (of_char (CHR ''0'') \<le> n \<and> n \<le> of_char (CHR ''9'')))"

definition digits_value :: "string \<Rightarrow> nat" where
  "digits_value ds = fold (\<lambda>c n. 10 * n + (of_char c - of_char (CHR ''0''))) ds 0"

text \<open>
  The parser reads the pattern from left to right; \<open>acc\<close> holds, in reverse, the atoms of
  the alternative being read, and \<open>q\<close> says that the last thing read is a character or
  \<open>\d\<close>, which a count may follow. The result is the list of alternatives, each a
  sequence of atoms, a count being unfolded into copies of its atom.
\<close>

function re_parse :: "string \<Rightarrow> re_atom list \<Rightarrow> bool \<Rightarrow> re_atom list list option" where
  "re_parse [] acc q = Some [rev acc]"
| "re_parse (c # cs) acc q =
     (if c = CHR 0x5C then
        (case cs of
           [] \<Rightarrow> None
         | d # ds \<Rightarrow>
             if d = CHR ''d'' then re_parse ds (Digit # acc) True
             else if is_ascii_alnum d then None
             else re_parse ds (Lit d # acc) True)
      else if c = CHR ''|'' then map_option ((#) (rev acc)) (re_parse cs [] False)
      else if c = CHR ''{'' then
        (case acc of
           [] \<Rightarrow> None
         | a # acc' \<Rightarrow>
             if \<not> q \<or> takeWhile is_digit cs = [] \<or> take 1 (dropWhile is_digit cs) \<noteq> ''}''
             then None
             else re_parse (drop 1 (dropWhile is_digit cs))
                    (replicate (digits_value (takeWhile is_digit cs)) a @ acc') False)
      else if c \<in> set ''.^$*+?()[]}'' then None
      else re_parse cs (Lit c # acc) True)"
  by pat_completeness auto
termination
  by (relation "measure (\<lambda>(s, acc, q). length s)")
     (auto simp: less_Suc_eq_le intro: order_trans [OF diff_le_self length_dropWhile_le])

text \<open>\<open>re.IGNORECASE\<close> on the code points below 256: the letters A to Z, and the
  Latin-1 capitals but for the multiplication sign, match their small letters.\<close>

definition lower_char :: "char \<Rightarrow> char" where
  "lower_char c =
     (let n = (of_char c :: nat) in
        if (65 \<le> n \<and> n \<le> 90) \<or> (192 \<le> n \<and> n \<le> 222 \<and> n \<noteq> 215) then char_of (n + 32) else c)"

fun atom_matches :: "bool \<Rightarrow> re_atom \<Rightarrow> char \<Rightarrow> bool" where
  "atom_matches ic (Lit a) c = (if ic then lower_char a = lower_char c else a = c)"
| "atom_matches ic Digit c = is_digit c"

text \<open>The length of the match of a sequence of atoms at the start of a text.\<close>

fun match_atoms :: "bool \<Rightarrow> re_atom list \<Rightarrow> string \<Rightarrow> nat option" where
  "match_atoms ic [] s = Some 0"
| "match_atoms ic (a # as) [] = None"
| "match_atoms ic (a # as) (c # cs) =
     (if atom_matches ic a c then map_option Suc (match_atoms ic as cs) else None)"

text \<open>The alternatives are tried from left to right, and the first that matches wins;
  with \<open>nonempty\<close> an empty match is not accepted.\<close>

fun match_alts :: "bool \<Rightarrow> re_atom list list \<Rightarrow> bool \<Rightarrow> string \<Rightarrow> nat option" where
  "match_alts ic [] nonempty s = None"
| "match_alts ic (alt # alts) nonempty s =
     (case match_atoms ic alt s of
        None \<Rightarrow> match_alts ic alts nonempty s
      | Some n \<Rightarrow> if nonempty \<and> n = 0 then match_alts ic alts nonempty s else Some n)"

text \<open>
  The scan of \<open>finditer\<close> and \<open>sub\<close>: the leftmost match from the current position, then
  on from its end. After an empty match the next match from the same position must not
  be empty; after any other match an empty match at its end is accepted.
\<close>

fun scan :: "bool \<Rightarrow> re_atom list list \<Rightarrow> nat \<Rightarrow> string \<Rightarrow> (nat \<times> nat) list" where
  "scan ic alts pos [] = (case match_alts ic alts False [] of None \<Rightarrow> [] | Some n \<Rightarrow> [(pos, pos)])"
| "scan ic alts pos (c # cs) =
     (case match_alts ic alts False (c # cs) of
        None \<Rightarrow> scan ic alts (pos + 1) cs
      | Some n \<Rightarrow>
          if n = 0 then
            (pos, pos) #
              (case match_alts ic alts True (c # cs) of
                 None \<Rightarrow> scan ic alts (pos + 1) cs
               | Some m \<Rightarrow> (pos, pos + m) # scan ic alts (pos + m) (drop (m - 1) cs))
          else (pos, pos + n) # scan ic alts (pos + n) (drop (n - 1) cs))"

definition fragment_finditer :: "string \<Rightarrow> bool \<Rightarrow> string \<Rightarrow> (nat \<times> nat) list option" where
  "fragment_finditer p ic text = map_option (\<lambda>alts. scan ic alts 0 text) (re_parse p [] False)"

fun fragment_expand :: "string \<Rightarrow> string \<Rightarrow> string option" where
  "fragment_expand [] m = Some []"
| "fragment_expand [c] m = (if c = CHR 0x5C then None else Some [c])"
| "fragment_expand (c # d # ds) m =
     (if c = CHR 0x5C then
        (if d = CHR 0x5C then map_option ((#) (CHR 0x5C)) (fragment_expand ds m)
         else if d = CHR ''n'' then map_option ((#) (CHR 0x0A)) (fragment_expand ds m)
         else if d = CHR ''t'' then map_option ((#) (CHR 0x09)) (fragment_expand ds m)
         else None)
      else map_option ((#) c) (fragment_expand (d # ds) m))"

fun fragment_format :: "string \<Rightarrow> string \<Rightarrow> string \<Rightarrow> string option" where
  "fragment_format [] nm rid = Some []"
| "fragment_format (c # cs) nm rid =
     (if c = CHR ''{'' then
        (if take 1 cs = ''{'' then
           map_option ((#) (CHR ''{'')) (fragment_format (drop 1 cs) nm rid)
         else if take 10 cs = ''rule_name}'' then
           map_option ((@) nm) (fragment_format (drop 10 cs) nm rid)
         else if take 8 cs = ''rule_id}'' then
           map_option ((@) rid) (fragment_format (drop 8 cs) nm rid)
         else None)
      else if c = CHR ''}'' then
        (if take 1 cs = ''}'' then
           map_option ((#) (CHR ''}'')) (fragment_format (drop 1 cs) nm rid)
         else None)
      else map_option ((#) c) (fragment_format cs nm rid))"

definition fragment_lib :: pylib where
  "fragment_lib =
     \<lparr>re_finditer = fragment_finditer, re_expand = fragment_expand, str_format = fragment_format\<rparr>"

section \<open>Scenarios\<close>

text \<open>
  Scenario A of the specification: one enabled regex rule with the pattern
  \<^verbatim>\<open>\d{3}-\d{2}-\d{4}\<close> and the action MASK, in a playbook with the redaction mode
  \<open>SAME_LENGTH_MASK\<close> and the mask character \<open>*\<close>. The identifier and the name of the
  rule are left open.
\<close>

definition ssn_pattern :: string where
  "ssn_pattern = CHR 0x5C # ''d{3}-'' @ CHR 0x5C # ''d{2}-'' @ CHR 0x5C # ''d{4}''"

definition ssn_rule :: "string \<Rightarrow> string \<Rightarrow> Rule" where
  "ssn_rule rid nm =
     (default_Rule rid nm ''regex_patterns'')
       \<lparr>action := ''MASK'',
        patterns := [\<lparr>pattern = Some ssn_pattern, entry_case_insensitive = False\<rparr>]\<rparr>"

definition scenario_A :: "string \<Rightarrow> string \<Rightarrow> Playbook" where
  "scenario_A rid nm =
     (default_Playbook ''scenario A'' ''1'')
       \<lparr>redaction_mode := ''SAME_LENGTH_MASK'', mask_char := ''*'', rules := [ssn_rule rid nm]\<rparr>"

text \<open>
  A document for the scenarios: a body with one paragraph, whose run holds the text of
  scenario A in a \<open>w:t\<close> element. \<open>reads_as tree out\<close> stands in for lxml where a
  concrete parser is needed: it fails on the empty byte string, reads every other byte
  string as \<open>tree\<close>, and serialises every tree as \<open>out\<close>.
\<close>

definition ssn_document :: xml where
  "ssn_document =
     Element ''w:document'' [] None
       [Element ''w:body'' [] None
          [Element ''w:p'' [] None
             [Element ''w:r'' [] None
                [Element ''w:t'' [] (Some ''SSN: 123-45-6789 end'') [] None] None] None] None]
       None"

definition reads_as :: "xml \<Rightarrow> bytes \<Rightarrow> xmllib" where
  "reads_as tree out =
     \<lparr>fromstring = (\<lambda>data. if data = [] then None else Some tree), tostring = (\<lambda>_. out)\<rparr>"

text \<open>
  Scenario C of the specification: one dictionary rule that maps \<open>John Smith\<close> to
  \<open>[NAME]\<close>, with the action REPLACE. The replacement template of the rule is left open.
\<close>

definition name_rule :: "string option \<Rightarrow> Rule" where
  "name_rule template =
     (default_Rule ''d1'' ''person'' ''dictionary_entities'')
       \<lparr>action := ''REPLACE'', replacement_template := template,
        dictionary := [(''John Smith'', ''[NAME]'')]\<rparr>"

definition scenario_C :: "string option \<Rightarrow> Playbook" where
  "scenario_C template = (default_Playbook ''scenario C'' ''1'') \<lparr>rules := [name_rule template]\<rparr>"

text \<open>
  A playbook in which a later rule matches text that an earlier REPLACE has written: the
  dictionary rule of scenario C, followed by a keyword rule for \<open>NAME\<close>.
\<close>

definition name_keyword_rule :: Rule where
  "name_keyword_rule =
     (default_Rule ''k1'' ''label'' ''keyword_list'') \<lparr>rule_keywords := [''NAME'']\<rparr>"

definition pass_through_playbook :: Playbook where
  "pass_through_playbook =
     (default_Playbook ''pass-through'' ''1'') \<lparr>rules := [name_rule None, name_keyword_rule]\<rparr>"

text \<open>
  Playbooks with the allowlist rule of scenario B, which protects the phrase
  \<open>Acme Corp\<close>: alone, and followed by a regex rule that masks every digit (pattern
  \<^verbatim>\<open>\d\<close>, action MASK, redaction mode \<open>FIXED_TOKEN\<close>).
\<close>

definition acme_rule :: Rule where
  "acme_rule = (default_Rule ''a1'' ''company'' ''allowlist'') \<lparr>phrases := [''Acme Corp'']\<rparr>"

definition digit_rule :: Rule where
  "digit_rule =
     (default_Rule ''r2'' ''digits'' ''regex_patterns'')
       \<lparr>patterns := [\<lparr>pattern = Some [CHR 0x5C, CHR ''d''], entry_case_insensitive = False\<rparr>]\<rparr>"

definition allowlist_only_playbook :: Playbook where
  "allowlist_only_playbook = (default_Playbook ''allowlist only'' ''1'') \<lparr>rules := [acme_rule]\<rparr>"

definition allowlist_digits_playbook :: Playbook where
  "allowlist_digits_playbook =
     (default_Playbook ''allowlist and digits'' ''1'') \<lparr>rules := [acme_rule, digit_rule]\<rparr>"

text \<open>
  Scenario D of the specification: a paragraph with a run that stays, a deletion, an
  insertion that holds a run and a move destination, a move source, and a comment
  reference. \<open>text_run t\<close> is a run with the text \<open>t\<close>.
\<close>

definition text_run :: "string \<Rightarrow> xml" where
  "text_run t = Element ''w:r'' [] None [Element ''w:t'' [] (Some t) [] None] None"

definition revised_document :: xml where
  "revised_document =
     Element ''w:document'' [] None
       [Element ''w:body'' [] None
          [Element ''w:p'' [] None
             [text_run ''kept'',
              Element ''w:del'' [] None [text_run ''old''] None,
              Element ''w:ins'' [] None
                [text_run ''new'', Element ''w:moveTo'' [] None [text_run ''moved''] None] None,
              Element ''w:moveFrom'' [] None [text_run ''gone''] None,
              Element ''w:commentReference'' [(''w:id'', ''0'')] None [] None]
             None]
          None]
       None"

definition accepted_document :: xml where
  "accepted_document =
     Element ''w:document'' [] None
       [Element ''w:body'' [] None
          [Element ''w:p'' [] None
             [text_run ''kept'', text_run ''new'', text_run ''moved'',
              Element ''w:commentReference'' [(''w:id'', ''0'')] None [] None]
             None]
          None]
       None"

text \<open>A part whose root element is itself a deletion node.\<close>

definition deletion_root :: xml where
  "deletion_root = Element ''w:del'' [] None [text_run ''old''] None"

section \<open>The invariant of a match report\<close>

text \<open>
  A dictionary of counts fits a total when its keys are distinct, its values add up to the
  total, and every value is positive. A report is well formed when both of its dictionaries
  fit \<open>total_matches\<close>.
\<close>


definition counts_ok :: "(string \<times> int) list \<Rightarrow> int \<Rightarrow> bool" where
  "counts_ok m tot \<longleftrightarrow>
     distinct (map fst m) \<and> sum_list (map snd m) = tot \<and> (\<forall>kv\<in>set m. 0 < snd kv)"

definition report_inv :: "RuleMatchReport \<Rightarrow> bool" where
  "report_inv r \<longleftrightarrow>
     counts_ok (matches_by_rule_type r) (total_matches r) \<and>
     counts_ok (matches_by_rule_id r) (total_matches r)"

section \<open>Matcher steps\<close>

text \<open>
  A matcher step is one search of the working text for one pattern: a dictionary rule
  makes one step for each key, a regex rule one for each entry with a non-empty pattern,
  a keyword rule one step when it has keywords. \<open>playbook_steps\<close> counts the steps of
  the rules that \<open>apply_rules\<close> runs after the allowlist.
\<close>

definition has_pattern :: "pattern_entry \<Rightarrow> bool" where
  "has_pattern entry \<longleftrightarrow> (case pattern entry of None \<Rightarrow> False | Some p \<Rightarrow> p \<noteq> [])"

definition rule_steps :: "Rule \<Rightarrow> nat" where
  "rule_steps rule =
     (if rule_type rule = ''dictionary_entities'' then length (dictionary rule)
      else if rule_type rule = ''regex_patterns'' then length (filter has_pattern (patterns rule))
      else if rule_type rule = ''keyword_list'' then (if rule_keywords rule = [] then 0 else 1)
      else 0)"

definition playbook_steps :: "Playbook \<Rightarrow> nat" where
  "playbook_steps playbook =
     sum_list (map rule_steps
       (concat (map (rules_by_type playbook)
          [''dictionary_entities'', ''regex_patterns'', ''keyword_list''])))"

text \<open>\<open>occurs p s\<close>: the text \<open>p\<close> is found somewhere in \<open>s\<close> (\<open>p in s\<close>).\<close>

fun occurs :: "string \<Rightarrow> string \<Rightarrow> bool" where
  "occurs p [] = (p = [])"
| "occurs p (c # cs) = (take (length p) (c # cs) = p \<or> occurs p cs)"

text \<open>
  No rule applies to a text: no phrase of an enabled allowlist rule occurs in it, and no
  pattern of an enabled allowlist or regex rule, no key of an enabled dictionary rule and
  no keyword alternation of an enabled keyword rule has a match in it.
\<close>

definition no_match :: "pylib \<Rightarrow> Rule \<Rightarrow> string \<Rightarrow> pattern_entry \<Rightarrow> bool" where
  "no_match L rule text entry \<longleftrightarrow>
     (case pattern entry of
        None \<Rightarrow> True
      | Some p \<Rightarrow>
          p = [] \<or>
          re_finditer L p (case_insensitive rule \<or> entry_case_insensitive entry) text = Some [])"

definition no_rule_applies :: "pylib \<Rightarrow> string \<Rightarrow> Playbook \<Rightarrow> bool" where
  "no_rule_applies L text playbook \<longleftrightarrow>
     (\<forall>rule\<in>set (rules playbook). enabled rule \<longrightarrow>
        (rule_type rule = ''allowlist'' \<longrightarrow>
           (\<forall>phrase\<in>set (phrases rule). \<not> occurs phrase text) \<and>
           (\<forall>entry\<in>set (patterns rule). no_match L rule text entry)) \<and>
        (rule_type rule = ''dictionary_entities'' \<longrightarrow>
           (\<forall>item\<in>set (dictionary rule).
              re_finditer L (re_escape (fst item)) (case_insensitive rule) text = Some [])) \<and>
        (rule_type rule = ''regex_patterns'' \<longrightarrow>
           (\<forall>entry\<in>set (patterns rule). no_match L rule text entry)) \<and>
        (rule_type rule = ''keyword_list'' \<longrightarrow>
           rule_keywords rule = [] \<or>
           re_finditer L (py_join ''|'' (map re_escape (rule_keywords rule)))
             (case_insensitive rule) text = Some []))"

text \<open>Every key of a placeholder dictionary is a placeholder token.\<close>

definition tokens_only :: "(string \<times> string) list \<Rightarrow> bool" where
  "tokens_only placeholders \<longleftrightarrow> (\<forall>kv\<in>set placeholders. \<exists>n. fst kv = placeholder_token n)"

section \<open>What accepting the revisions means\<close>

text \<open>
  The specification's reading of the cleaner, in one pass over the tree: a deletion or
  move-source node gives nothing; an insertion or move-destination wrapper gives what its
  children give, in order; any other node stays, with what its children give as its new
  children. \<open>accepted\<close> is compared with the four passes of the code below.
\<close>

fun accepted :: "xml \<Rightarrow> xml list" where
  "accepted (Element tg a tx cs ta) =
     (if tg = ''w:del'' \<or> tg = ''w:moveFrom'' then []
      else if tg = ''w:ins'' \<or> tg = ''w:moveTo'' then concat (map accepted cs)
      else [Element tg a tx (concat (map accepted cs)) ta])"

text \<open>The tags of a node and of all nodes below it, in document order.\<close>

fun tags_of :: "xml \<Rightarrow> string list" where
  "tags_of (Element tg a tx cs ta) = tg # concat (map tags_of cs)"

definition revision_tags :: "string list" where
  "revision_tags = [''w:del'', ''w:moveFrom'', ''w:ins'', ''w:moveTo'']"

text \<open>The passes of the code on a list of siblings.\<close>

definition remove_forest :: "string \<Rightarrow> xml list \<Rightarrow> xml list" where
  "remove_forest t ns = map (remove_nodes t) (filter (\<lambda>c. tag c \<noteq> t) ns)"

definition unwrap_forest :: "string \<Rightarrow> xml list \<Rightarrow> xml list" where
  "unwrap_forest t ns =
     concat (map (\<lambda>c. if tag c = t then children (unwrap_nodes t c) else [unwrap_nodes t c]) ns)"

definition accept_forest :: "xml list \<Rightarrow> xml list" where
  "accept_forest ns =
     unwrap_forest ''w:moveTo'' (unwrap_forest ''w:ins''
       (remove_forest ''w:moveFrom'' (remove_forest ''w:del'' ns)))"

section \<open>Properties of \<open>sanitize_filename\<close>\<close>

lemma safe_char_underscore: "safe_char (CHR ''_'')"
  by (simp add: safe_char_def)

lemma safe_sub_safe: "\<forall>c\<in>set s. safe_char c \<Longrightarrow> SAFE_FILENAME_PATTERN_sub s = s"
  by (induction s) auto

lemma safe_sub_Nil: "SAFE_FILENAME_PATTERN_sub s = [] \<longleftrightarrow> s = []"
  by (cases s) auto

lemma safe_sub_chars: "\<forall>c\<in>set (SAFE_FILENAME_PATTERN_sub s). safe_char c"
proof (induction s rule: SAFE_FILENAME_PATTERN_sub.induct)
  case 1
  show ?case by simp
next
  case (2 c cs)
  show ?case
  proof (cases "safe_char c")
    case True
    with 2(1) show ?thesis by simp
  next
    case False
    then have "SAFE_FILENAME_PATTERN_sub (c # cs) =
        CHR ''_'' # SAFE_FILENAME_PATTERN_sub (dropWhile (\<lambda>d. \<not> safe_char d) cs)"
      by simp
    moreover have
      "\<forall>c\<in>set (SAFE_FILENAME_PATTERN_sub (dropWhile (\<lambda>d. \<not> safe_char d) cs)). safe_char c"
      using 2(2) False by blast
    ultimately show ?thesis
      using safe_char_underscore by (metis set_ConsD)
  qed
qed

lemma dropWhile_safe_hd:
  "ys = [] \<or> safe_char (hd ys) \<Longrightarrow> dropWhile (\<lambda>d. \<not> safe_char d) ys = ys"
  by (cases ys) auto

lemma dropWhile_unsafe_run:
  "\<forall>c\<in>set ds. \<not> safe_char c \<Longrightarrow> ys = [] \<or> safe_char (hd ys) \<Longrightarrow>
   dropWhile (\<lambda>d. \<not> safe_char d) (ds @ ys) = ys"
  by (induction ds) (auto simp: dropWhile_safe_hd)

text \<open>A run of characters outside the class, ended by a safe character or by the end of
  the text, becomes a single underscore.\<close>

lemma safe_sub_run:
  assumes "ds \<noteq> []" and "\<forall>c\<in>set ds. \<not> safe_char c" and "ys = [] \<or> safe_char (hd ys)"
  shows "SAFE_FILENAME_PATTERN_sub (ds @ ys) = CHR ''_'' # SAFE_FILENAME_PATTERN_sub ys"
proof -
  from assms(1) obtain d ds' where ds: "ds = d # ds'"
    by (cases ds) auto
  with assms(2) have d: "\<not> safe_char d" and ds': "\<forall>c\<in>set ds'. \<not> safe_char c"
    by auto
  have "dropWhile (\<lambda>d. \<not> safe_char d) (ds' @ ys) = ys"
    using ds' assms(3) by (rule dropWhile_unsafe_run)
  then have "SAFE_FILENAME_PATTERN_sub (d # (ds' @ ys)) = CHR ''_'' # SAFE_FILENAME_PATTERN_sub ys"
    using d by (simp only: SAFE_FILENAME_PATTERN_sub.simps if_False)
  then show ?thesis
    by (simp add: ds)
qed

text \<open>The substitution works on the text before and after a safe character separately.\<close>

lemma safe_sub_append:
  "xs = [] \<or> safe_char (last xs) \<Longrightarrow>
   SAFE_FILENAME_PATTERN_sub (xs @ zs) = SAFE_FILENAME_PATTERN_sub xs @ SAFE_FILENAME_PATTERN_sub zs"
proof (induction xs rule: SAFE_FILENAME_PATTERN_sub.induct)
  case 1
  show ?case by simp
next
  case (2 c cs)
  show ?case
  proof (cases "safe_char c")
    case True
    have "cs = [] \<or> safe_char (last cs)"
      using 2(3) by (auto split: if_splits)
    with 2(1) True show ?thesis by simp
  next
    case False
    let ?P = "\<lambda>d. \<not> safe_char d"
    from False 2(3) have cs: "cs \<noteq> []" and l: "safe_char (last cs)"
      by (auto split: if_splits)
    then have mem: "last cs \<in> set cs" by simp
    have app: "dropWhile ?P (cs @ zs) = dropWhile ?P cs @ zs"
      using mem l by (simp add: dropWhile_append1)
    have ne: "dropWhile ?P cs \<noteq> []"
      using mem l by (auto simp: dropWhile_eq_Nil_conv)
    have "last (dropWhile ?P cs) = last cs"
      using ne by (metis takeWhile_dropWhile_id last_appendR)
    with l ne have "dropWhile ?P cs = [] \<or> safe_char (last (dropWhile ?P cs))" by simp
    from 2(2)[OF False this] False app show ?thesis by simp
  qed
qed

lemma py_slice_to_take: "0 \<le> n \<Longrightarrow> py_slice_to s n = take (nat n) s"
  by (simp add: py_slice_to_def)

text \<open>
  C8 (amended). \<open>sanitize_filename\<close> trims surrounding whitespace first, then replaces
  every maximal run of characters outside \<open>[A-Za-z0-9._-]\<close> with a single underscore (a run
  of k such characters gives one underscore, not k), falls back to \<open>file\<close> when nothing
  is left after trimming, and keeps at most 255 characters, all of them from the class.
\<close>

theorem sanitize_filename_collapses_runs:
  "length (sanitize_filename filename 255) \<le> 255 \<and>
   (\<forall>c\<in>set (sanitize_filename filename 255). safe_char c) \<and>
   (py_strip filename = [] \<longrightarrow> sanitize_filename filename 255 = ''file'') \<and>
   ((\<forall>c\<in>set (py_strip filename). safe_char c) \<and> py_strip filename \<noteq> [] \<longrightarrow>
      sanitize_filename filename 255 = take 255 (py_strip filename)) \<and>
   (py_strip filename = xs @ ds @ ys \<and> ds \<noteq> [] \<and> (\<forall>c\<in>set ds. \<not> safe_char c) \<and>
    (xs = [] \<or> safe_char (last xs)) \<and> (ys = [] \<or> safe_char (hd ys)) \<longrightarrow>
      sanitize_filename filename 255 =
        take 255 (SAFE_FILENAME_PATTERN_sub xs @ ''_'' @ SAFE_FILENAME_PATTERN_sub ys))"
proof (intro conjI impI)
  show "length (sanitize_filename filename 255) \<le> 255"
    by (simp add: sanitize_filename_def Let_def py_slice_to_take)
next
  have "\<forall>c\<in>set ''file''. safe_char c"
    by (simp add: safe_char_def)
  then have "\<forall>c\<in>set (if SAFE_FILENAME_PATTERN_sub (py_strip filename) = [] then ''file''
      else SAFE_FILENAME_PATTERN_sub (py_strip filename)). safe_char c"
    using safe_sub_chars by presburger
  then show "\<forall>c\<in>set (sanitize_filename filename 255). safe_char c"
    unfolding sanitize_filename_def Let_def py_slice_to_take[of 255, simplified]
    by (meson in_set_takeD)
next
  assume "py_strip filename = []"
  then show "sanitize_filename filename 255 = ''file''"
    by (simp add: sanitize_filename_def py_slice_to_take)
next
  assume "(\<forall>c\<in>set (py_strip filename). safe_char c) \<and> py_strip filename \<noteq> []"
  then show "sanitize_filename filename 255 = take 255 (py_strip filename)"
    by (simp add: sanitize_filename_def py_slice_to_take safe_sub_safe)
next
  assume a: "py_strip filename = xs @ ds @ ys \<and> ds \<noteq> [] \<and> (\<forall>c\<in>set ds. \<not> safe_char c) \<and>
    (xs = [] \<or> safe_char (last xs)) \<and> (ys = [] \<or> safe_char (hd ys))"
  then have "SAFE_FILENAME_PATTERN_sub (py_strip filename) =
      SAFE_FILENAME_PATTERN_sub xs @ SAFE_FILENAME_PATTERN_sub (ds @ ys)"
    by (simp add: safe_sub_append)
  also have "SAFE_FILENAME_PATTERN_sub (ds @ ys) = CHR ''_'' # SAFE_FILENAME_PATTERN_sub ys"
    using a by (intro safe_sub_run) auto
  finally have "SAFE_FILENAME_PATTERN_sub (py_strip filename) =
      SAFE_FILENAME_PATTERN_sub xs @ ''_'' @ SAFE_FILENAME_PATTERN_sub ys"
    by simp
  then show "sanitize_filename filename 255 =
      take 255 (SAFE_FILENAME_PATTERN_sub xs @ ''_'' @ SAFE_FILENAME_PATTERN_sub ys)"
    by (simp add: sanitize_filename_def py_slice_to_take)
qed

theorem sanitize_filename_collapses_runs_witness:
  "py_strip '' a!!b '' = ''a'' @ ''!!'' @ ''b'' \<and>
   sanitize_filename '' a!!b '' 255 = ''a_b'' \<and>
   length (sanitize_filename '' a!!b '' 255) \<le> 255 \<and>
   sanitize_filename ''   '' 255 = ''file''"
proof -
  have s: "py_strip '' a!!b '' = ''a'' @ ''!!'' @ ''b''"
    by (simp add: py_strip_def py_isspace_def)
  have e: "py_strip ''   '' = []"
    by (simp add: py_strip_def py_isspace_def)
  have u: "''!!'' \<noteq> []" "\<forall>c\<in>set ''!!''. \<not> safe_char c"
    by (simp_all add: safe_char_def)
  have a: "''a'' = [] \<or> safe_char (last ''a'')" "''b'' = [] \<or> safe_char (hd ''b'')"
    by (simp_all add: safe_char_def)
  have subs: "SAFE_FILENAME_PATTERN_sub ''a'' = ''a''" "SAFE_FILENAME_PATTERN_sub ''b'' = ''b''"
    by (simp_all add: safe_char_def)
  have r: "sanitize_filename '' a!!b '' 255 =
      take 255 (SAFE_FILENAME_PATTERN_sub ''a'' @ ''_'' @ SAFE_FILENAME_PATTERN_sub ''b'')"
    using sanitize_filename_collapses_runs [of "'' a!!b ''" "''a''" "''!!''" "''b''"] s u a
    by blast
  have l: "length (sanitize_filename '' a!!b '' 255) \<le> 255"
    using sanitize_filename_collapses_runs [of "'' a!!b ''" "''a''" "''!!''" "''b''"]
    by blast
  have f: "sanitize_filename ''   '' 255 = ''file''"
    using sanitize_filename_collapses_runs [of "''   ''" "[]" "[]" "[]"] e
    by blast
  have "sanitize_filename '' a!!b '' 255 = ''a_b''"
    unfolding r subs by simp
  with s l f show ?thesis
    by blast
qed

text \<open>
  C8 as stated fails: the two exclamation marks of \<open>a!!b\<close> are one run and give one
  underscore, where the per-character reading gives two.
\<close>

theorem sanitize_filename_per_character_counterexample:
  "sanitize_filename ''a!!b'' 255 = ''a_b'' \<and> sanitize_per_character ''a!!b'' = ''a__b''"
  by (simp add: sanitize_filename_def sanitize_per_character_def py_strip_def py_isspace_def
      safe_char_def py_slice_to_def)

section \<open>Properties of \<open>decode_text_bytes\<close>\<close>

text \<open>
  C10. \<open>decode_text_bytes\<close> returns a text for every byte sequence, whatever the UTF-8
  and cp1251 codecs do: every \<open>UnicodeDecodeError\<close> is caught, and the Latin-1 stage
  accepts every byte, so that the loop always returns and the statement after the loop
  (the \<open>errors="replace"\<close> call) is never reached.
\<close>

theorem decode_text_bytes_total:
  "\<exists>s. decode_loop [utf_8, cp1251, latin_1] data = Some s \<and>
       decode_text_bytes utf_8 cp1251 data = s \<and>
       (utf_8 data = None \<and> cp1251 data = None \<longrightarrow> s = map unat data)"
  by (simp add: decode_text_bytes_def latin_1_def split: option.splits)

theorem decode_text_bytes_total_witness:
  "(\<lambda>_. None) [0x98, 0xFF :: 8 word] = (None :: codepoints option) \<and>
   decode_text_bytes (\<lambda>_. None) (\<lambda>_. None) [0x98, 0xFF] = [152, 255]"
  using decode_text_bytes_total [of "\<lambda>_. None" "\<lambda>_. None" "[0x98, 0xFF]"]
  by simp

section \<open>Scenario A\<close>

lemma ssn_finditer:
  "fragment_finditer ssn_pattern False ''SSN: 123-45-6789 end'' = Some [(5, 16)]"
  by code_simp

lemma ssn_pattern_nonempty: "ssn_pattern \<noteq> []"
  by (simp add: ssn_pattern_def)

lemma rules_by_type_scenario_A:
  "rules_by_type (scenario_A rid nm) ty =
     (if ty = ''regex_patterns'' then [ssn_rule rid nm] else [])"
  by (simp add: rules_by_type_def scenario_A_def ssn_rule_def default_Rule_def
      default_Playbook_def)

lemma ssn_rule_step:
  "apply_rule fragment_lib ''SSN: 123-45-6789 end'' (ssn_rule rid nm) (scenario_A rid nm)
     empty_report False =
   Some (''SSN: *********** end'',
     \<lparr>total_matches = 1, matches_by_rule_type = [(''regex_patterns'', 1)],
      matches_by_rule_id = [(rid, 1)]\<rparr>)"
  by (simp add: apply_rule_def apply_regex_patterns_def ssn_rule_def default_Rule_def
      ssn_pattern_nonempty fragment_lib_def ssn_finditer register_match_def empty_report_def
      dict_get_def replacement_for_match_def or_default_def scenario_A_def default_Playbook_def)

lemma scenario_A_live:
  "apply_rules fragment_lib ''SSN: 123-45-6789 end'' (scenario_A rid nm) False =
   Some (''SSN: *********** end'',
     \<lparr>total_matches = 1, matches_by_rule_type = [(''regex_patterns'', 1)],
      matches_by_rule_id = [(rid, 1)]\<rparr>)"
  by (simp add: apply_rules_def rules_by_type_scenario_A apply_allowlist_def ssn_rule_step
      restore_def)

text \<open>
  C4. On \<open>SSN: 123-45-6789 end\<close> the live run of scenario A returns the text with the
  match replaced by 11 asterisks, one for each matched character, and a report with
  \<open>total_matches = 1\<close>.
\<close>

theorem scenario_A_masks_ssn:
  "apply_rules fragment_lib ''SSN: 123-45-6789 end'' (scenario_A rid nm) False =
   Some (''SSN: '' @ replicate 11 (CHR ''*'') @ '' end'',
     \<lparr>total_matches = 1, matches_by_rule_type = [(''regex_patterns'', 1)],
      matches_by_rule_id = [(rid, 1)]\<rparr>)"
proof -
  have "replicate 11 (CHR ''*'') = ''***********''"
    by code_simp
  then show ?thesis
    by (simp add: scenario_A_live)
qed

section \<open>The invariant of a match report\<close>

lemma dict_set_keys:
  "map fst (dict_set m k v) = (if k \<in> fst ` set m then map fst m else map fst m @ [k])"
  by (induction m) (auto simp: rev_image_eqI)

lemma dict_set_distinct: "distinct (map fst m) \<Longrightarrow> distinct (map fst (dict_set m k v))"
  by (simp add: dict_set_keys)

lemma dict_set_sum:
  "distinct (map fst m) \<Longrightarrow>
   sum_list (map snd (dict_set m k v)) = sum_list (map snd m) - dict_get m k 0 + (v :: int)"
proof (induction m)
  case Nil
  show ?case by (simp add: dict_get_def)
next
  case (Cons p m)
  obtain k' v' where p: "p = (k', v')" by (cases p)
  show ?case
  proof (cases "k' = k")
    case True
    then show ?thesis by (simp add: p dict_get_def)
  next
    case False
    with Cons show ?thesis by (simp add: p dict_get_def)
  qed
qed
lemma dict_set_values:
  "kv \<in> set (dict_set m k v) \<Longrightarrow> kv \<in> set m \<or> kv = (k, v)"
  by (induction m) (auto split: if_splits)

lemma counts_ok_bump:
  assumes "counts_ok m tot" and "0 < c"
  shows "counts_ok (dict_set m k (dict_get m k 0 + c)) (tot + c)"
proof -
  from assms(1) have d: "distinct (map fst m)" and s: "sum_list (map snd m) = tot"
    and p: "\<forall>kv\<in>set m. 0 < snd kv"
    by (simp_all add: counts_ok_def)
  have "0 \<le> dict_get m k 0"
    using p by (auto simp: dict_get_def split: option.splits dest!: map_of_SomeD)
  then have pos: "0 < dict_get m k 0 + c"
    using assms(2) by simp
  have "\<forall>kv\<in>set (dict_set m k (dict_get m k 0 + c)). 0 < snd kv"
    using p pos dict_set_values by fastforce
  then show ?thesis
    by (simp add: counts_ok_def dict_set_distinct [OF d] dict_set_sum [OF d] s)
qed
lemma counts_ok_empty: "counts_ok [] 0"
  by (simp add: counts_ok_def)

lemma report_inv_empty: "report_inv empty_report"
  by (simp add: report_inv_def empty_report_def counts_ok_empty)

lemma register_match_inv: "report_inv r \<Longrightarrow> report_inv (register_match r rule c)"
  by (simp add: report_inv_def register_match_def counts_ok_bump)
lemma merge_counts_ok:
  "counts_ok target t \<Longrightarrow> \<forall>kv\<in>set items. 0 < snd kv \<Longrightarrow>
   counts_ok (merge_counts target items) (t + sum_list (map snd items))"
proof (induction items arbitrary: target t)
  case Nil
  then show ?case by (simp add: merge_counts_def)
next
  case (Cons kv items)
  obtain k v where kv: "kv = (k, v)" by (cases kv)
  from Cons.prems(2) have v: "0 < v" and rest: "\<forall>kv\<in>set items. 0 < snd kv"
    by (simp_all add: kv)
  have "counts_ok (dict_set target k (dict_get target k 0 + v)) (t + v)"
    using Cons.prems(1) v by (rule counts_ok_bump)
  from Cons.IH [OF this rest] show ?case
    by (simp add: merge_counts_def kv add.assoc)
qed

lemma merge_reports_inv:
  assumes "report_inv a" and "report_inv b"
  shows "report_inv (merge_reports a b)"
proof -
  from assms(2) have
    "sum_list (map snd (matches_by_rule_type b)) = total_matches b"
    "sum_list (map snd (matches_by_rule_id b)) = total_matches b"
    "\<forall>kv\<in>set (matches_by_rule_type b). 0 < snd kv"
    "\<forall>kv\<in>set (matches_by_rule_id b). 0 < snd kv"
    by (simp_all add: report_inv_def counts_ok_def)
  moreover from assms(1) have
    "counts_ok (matches_by_rule_type a) (total_matches a)"
    "counts_ok (matches_by_rule_id a) (total_matches a)"
    by (simp_all add: report_inv_def)
  ultimately show ?thesis
    using merge_counts_ok [of "matches_by_rule_type a" "total_matches a" "matches_by_rule_type b"]
      merge_counts_ok [of "matches_by_rule_id a" "total_matches a" "matches_by_rule_id b"]
    by (simp add: report_inv_def merge_reports_def)
qed



lemma dictionary_items_inv:
  "dictionary_items L rule pb d items (u, r) = Some (u', r') \<Longrightarrow> report_inv r \<Longrightarrow> report_inv r'"
proof (induction items arbitrary: u r)
  case Nil
  then show ?case by simp
next
  case (Cons it items)
  obtain target replacement where it: "it = (target, replacement)" by (cases it)
  note ih1 = Cons.IH [OF _ Cons.prems(2)]
  note ih2 = Cons.IH [OF _ register_match_inv [OF Cons.prems(2)]]
  from Cons.prems(1) ih1 ih2 show ?case
    by (cases d) (auto simp: it Let_def split: option.splits if_splits)
qed
lemma regex_entries_inv:
  "regex_entries L rule pb d es (u, r) = Some (u', r') \<Longrightarrow> report_inv r \<Longrightarrow> report_inv r'"
proof (induction es arbitrary: u r)
  case Nil
  then show ?case by simp
next
  case (Cons e es)
  note ih1 = Cons.IH [OF _ Cons.prems(2)]
  note ih2 = Cons.IH [OF _ register_match_inv [OF Cons.prems(2)]]
  from Cons.prems(1) ih1 ih2 show ?case
    by (cases d) (auto simp: Let_def split: option.splits if_splits)
qed
lemma apply_keywords_inv:
  "apply_keywords L text rule pb r d = Some (u', r') \<Longrightarrow> report_inv r \<Longrightarrow> report_inv r'"
  by (auto simp: apply_keywords_def Let_def split: option.splits if_splits
      intro: register_match_inv)

lemma apply_rule_inv:
  "apply_rule L text rule pb r d = Some (u', r') \<Longrightarrow> report_inv r \<Longrightarrow> report_inv r'"
  by (auto simp: apply_rule_def apply_dictionary_def apply_regex_patterns_def
      split: if_splits
      dest: dictionary_items_inv regex_entries_inv apply_keywords_inv)
lemma rule_loop_inv:
  "rule_loop L pb d rs (u, r) = Some (u', r') \<Longrightarrow> report_inv r \<Longrightarrow> report_inv r'"
proof (induction rs arbitrary: u r)
  case Nil
  then show ?case by simp
next
  case (Cons rule rs)
  from Cons.prems show ?case
    by (auto split: option.splits dest: apply_rule_inv Cons.IH)
qed

lemma rule_type_loop_inv:
  "rule_type_loop L pb d tys (u, r) = Some (u', r') \<Longrightarrow> report_inv r \<Longrightarrow> report_inv r'"
proof (induction tys arbitrary: u r)
  case Nil
  then show ?case by simp
next
  case (Cons ty tys)
  from Cons.prems show ?case
    by (auto split: option.splits dest: rule_loop_inv Cons.IH)
qed

lemma apply_rules_inv:
  assumes "apply_rules L text pb d = Some (out, r)"
  shows "report_inv r"
proof -
  from assms obtain p u where
    "rule_type_loop L pb d [''dictionary_entities'', ''regex_patterns'', ''keyword_list'']
       (p, empty_report) = Some (u, r)"
    by (auto simp: apply_rules_def simp del: rule_type_loop.simps split: option.splits)
  then show ?thesis
    using report_inv_empty by (rule rule_type_loop_inv)
qed
lemma redact_inv:
  "\<forall>n' st'. redact_node L pb d n st = Some (n', st') \<longrightarrow> report_inv (fst st) \<longrightarrow> report_inv (fst st')"
  "\<forall>ns' st'. redact_nodes L pb d ns st = Some (ns', st') \<longrightarrow> report_inv (fst st) \<longrightarrow> report_inv (fst st')"
proof (induction L pb d n st and L pb d ns st rule: redact_node_redact_nodes.induct)
  case (1 L playbook dry_run tg a tx cs ta aggregate modified)
  show ?case
  proof (intro allI impI)
    fix n' st'
    assume run: "redact_node L playbook dry_run (Element tg a tx cs ta) (aggregate, modified) = Some (n', st')"
      and inv: "report_inv (fst (aggregate, modified))"
    show "report_inv (fst st')"
    proof (cases "if tg = ''w:t'' then tx else None")
      case None
      with run obtain cs' where "redact_nodes L playbook dry_run cs (aggregate, modified) = Some (cs', st')"
        by (auto split: option.splits)
      with 1(1) [OF None] inv show ?thesis by blast
    next
      case (Some t)
      with run obtain redacted_text report cs' where
        ar: "apply_rules L t playbook dry_run = Some (redacted_text, report)" and
        rn: "redact_nodes L playbook dry_run cs
               (merge_reports aggregate report, modified \<or> (\<not> dry_run \<and> redacted_text \<noteq> t)) = Some (cs', st')"
        by (auto simp: Let_def split: option.splits)
      have "report_inv (merge_reports aggregate report)"
        using inv apply_rules_inv [OF ar] by (simp add: merge_reports_inv)
      with 1(2) [OF Some ar refl refl refl] rn show ?thesis
        by (cases st') (auto simp: Let_def)
    qed
  qed
next
  case (2 L playbook dry_run st)
  show ?case by simp
next
  case (3 L playbook dry_run c cs st)
  show ?case
  proof (intro allI impI)
    fix ns' st'
    assume run: "redact_nodes L playbook dry_run (c # cs) st = Some (ns', st')"
      and inv: "report_inv (fst st)"
    from run obtain c' st1 cs' where
      a: "redact_node L playbook dry_run c st = Some (c', st1)" and
      b: "redact_nodes L playbook dry_run cs st1 = Some (cs', st')"
      by (auto split: option.splits)
    from 3(1) a inv have "report_inv (fst st1)" by blast
    with 3(2) [OF a refl] b show "report_inv (fst st')" by blast
  qed
qed

lemma parts_loop_inv:
  "parts_loop L X pb d ps (u, r) = Some (u', r') \<Longrightarrow> report_inv r \<Longrightarrow> report_inv r'"
proof (induction ps arbitrary: u r)
  case Nil
  then show ?case by simp
next
  case (Cons p ps)
  obtain nm data where p: "p = (nm, data)" by (cases p)
  note ih = Cons.IH
  show ?case
  proof (cases "\<not> startswith nm ''word/'' \<or> \<not> endswith nm ''.xml'' \<or> fromstring X data = None")
    case True
    with Cons.prems(1) have "parts_loop L X pb d ps (u, r) = Some (u', r')"
      by (auto simp: p split: if_splits)
    then show ?thesis using Cons.prems(2) by (rule ih)
  next
    case False
    then obtain tree where t: "fromstring X data = Some tree" by auto
    with False Cons.prems(1) obtain cs' agg m u2 where
      rn: "redact_nodes L pb d (children tree) (r, False) = Some (cs', agg, m)" and
      pl: "parts_loop L X pb d ps (u2, agg) = Some (u', r')"
      by (auto simp: p split: option.splits)
    from redact_inv(2) rn Cons.prems(2) have "report_inv agg"
      by fastforce
    with pl show ?thesis by (rule ih)
  qed
qed

lemma apply_rules_to_parts_inv:
  assumes "apply_rules_to_parts L X parts pb d = Some (u, r)"
  shows "report_inv r"
  using assms report_inv_empty unfolding apply_rules_to_parts_def by (rule parts_loop_inv)


text \<open>
  C9. Every report that \<open>apply_rules\<close> returns is well formed: \<open>total_matches\<close> is
  the sum of the values of \<open>matches_by_rule_type\<close> and the sum of the values of
  \<open>matches_by_rule_id\<close>, and every value stored in either dictionary is positive. Merging
  two well-formed reports gives a well-formed report, and so the aggregate that
  \<open>_apply_rules_to_parts\<close> builds from the reports of the text nodes is well formed.
\<close>

theorem report_invariant:
  "(apply_rules L text playbook dry_run = Some (out, report) \<longrightarrow> report_inv report) \<and>
   (report_inv a \<and> report_inv b \<longrightarrow> report_inv (merge_reports a b)) \<and>
   (apply_rules_to_parts L X parts playbook dry_run = Some (updated_parts, aggregate) \<longrightarrow>
      report_inv aggregate)"
  using apply_rules_inv merge_reports_inv apply_rules_to_parts_inv by blast

theorem report_invariant_witness:
  "apply_rules fragment_lib ''SSN: 123-45-6789 end'' (scenario_A ''r1'' ''ssn'') False =
     Some (''SSN: *********** end'',
       \<lparr>total_matches = 1, matches_by_rule_type = [(''regex_patterns'', 1)],
        matches_by_rule_id = [(''r1'', 1)]\<rparr>) \<and>
   report_inv \<lparr>total_matches = 1, matches_by_rule_type = [(''regex_patterns'', 1)],
        matches_by_rule_id = [(''r1'', 1)]\<rparr> \<and>
   report_inv (merge_reports
      \<lparr>total_matches = 1, matches_by_rule_type = [(''regex_patterns'', 1)],
        matches_by_rule_id = [(''r1'', 1)]\<rparr>
      \<lparr>total_matches = 1, matches_by_rule_type = [(''regex_patterns'', 1)],
        matches_by_rule_id = [(''r1'', 1)]\<rparr>) \<and>
   apply_rules_to_parts fragment_lib (reads_as ssn_document [1])
       [(''word/document.xml'', [60]), (''word/other.xml'', [62])] (scenario_A ''r1'' ''ssn'') False =
     Some ([(''word/document.xml'', [1]), (''word/other.xml'', [1])],
       \<lparr>total_matches = 2, matches_by_rule_type = [(''regex_patterns'', 2)],
        matches_by_rule_id = [(''r1'', 2)]\<rparr>) \<and>
   report_inv \<lparr>total_matches = 2, matches_by_rule_type = [(''regex_patterns'', 2)],
        matches_by_rule_id = [(''r1'', 2)]\<rparr>"
proof -
  let ?r = "\<lparr>total_matches = 1, matches_by_rule_type = [(''regex_patterns'', 1)],
        matches_by_rule_id = [(''r1'', 1)]\<rparr>"
  let ?agg = "\<lparr>total_matches = 2, matches_by_rule_type = [(''regex_patterns'', 2)],
        matches_by_rule_id = [(''r1'', 2)]\<rparr>"
  let ?parts = "[(''word/document.xml'', [60 :: 8 word]), (''word/other.xml'', [62])]"
  let ?out = "[(''word/document.xml'', [1 :: 8 word]), (''word/other.xml'', [1])]"
  have live: "apply_rules fragment_lib ''SSN: 123-45-6789 end'' (scenario_A ''r1'' ''ssn'') False =
      Some (''SSN: *********** end'', ?r)"
    by (rule scenario_A_live)
  have parts: "apply_rules_to_parts fragment_lib (reads_as ssn_document [1]) ?parts
      (scenario_A ''r1'' ''ssn'') False = Some (?out, ?agg)"
    by code_simp
  note inv = report_invariant [of fragment_lib "''SSN: 123-45-6789 end''" "scenario_A ''r1'' ''ssn''"
      False "''SSN: *********** end''" ?r ?r ?r "reads_as ssn_document [1]" ?parts ?out ?agg]
  from inv live have r: "report_inv ?r" by blast
  with inv have m: "report_inv (merge_reports ?r ?r)" by blast
  from inv parts have "report_inv ?agg" by blast
  with live r m parts show ?thesis by blast
qed

section \<open>Dictionary rules with the action REPLACE\<close>


lemma register_match_template:
  "register_match report (rule\<lparr>replacement_template := t\<rparr>) n = register_match report rule n"
  by (simp add: register_match_def)

lemma dictionary_items_template:
  "action rule = ''REPLACE'' \<Longrightarrow>
   dictionary_items L (rule\<lparr>replacement_template := t\<rparr>) playbook dry_run items st =
   dictionary_items L rule playbook dry_run items st"
proof (induction items arbitrary: st)
  case Nil
  show ?case by simp
next
  case (Cons it items)
  obtain target replacement where it: "it = (target, replacement)" by (cases it)
  obtain updated report where st: "st = (updated, report)" by (cases st)
  show ?case
    using Cons.prems Cons.IH [OF Cons.prems]
    by (cases dry_run)
       (simp_all add: it st register_match_template Let_def split: option.splits)
qed
lemma scenario_C_live:
  "apply_rules fragment_lib ''John Smith called John Smith'' (scenario_C template) False =
   Some (''[NAME] called [NAME]'',
     \<lparr>total_matches = 2, matches_by_rule_type = [(''dictionary_entities'', 2)],
      matches_by_rule_id = [(''d1'', 2)]\<rparr>)"
proof -
  have f: "fragment_finditer (re_escape ''John Smith'') False ''John Smith called John Smith'' =
      Some [(0, 10), (18, 28)]"
    by code_simp
  have r: "rules_by_type (scenario_C template) ty =
      (if ty = ''dictionary_entities'' then [name_rule template] else [])" for ty
    by (simp add: rules_by_type_def scenario_C_def name_rule_def default_Rule_def
        default_Playbook_def)
  have s: "apply_rule fragment_lib ''John Smith called John Smith'' (name_rule template)
      (scenario_C template) empty_report False =
    Some (''[NAME] called [NAME]'',
     \<lparr>total_matches = 2, matches_by_rule_type = [(''dictionary_entities'', 2)],
      matches_by_rule_id = [(''d1'', 2)]\<rparr>)"
    by (simp add: apply_rule_def apply_dictionary_def name_rule_def default_Rule_def
        fragment_lib_def f register_match_def empty_report_def dict_get_def
        re_sub_template_def)
  show ?thesis
    by (simp add: apply_rules_def r apply_allowlist_def s restore_def)
qed
text \<open>
  C3 as stated fails. In scenario C with the replacement template \<open><{rule_name}>\<close> the
  rule has a template, and formatted with the rule's name it reads \<open><person>\<close>; the
  engine still writes the value \<open>[NAME]\<close> that the dictionary maps the key to.
\<close>

theorem dictionary_replace_template_counterexample:
  "apply_rules fragment_lib ''John Smith called John Smith''
     (scenario_C (Some ''<{rule_name}>'')) False =
   Some (''[NAME] called [NAME]'',
     \<lparr>total_matches = 2, matches_by_rule_type = [(''dictionary_entities'', 2)],
      matches_by_rule_id = [(''d1'', 2)]\<rparr>) \<and>
   replacement_template (name_rule (Some ''<{rule_name}>'')) = Some ''<{rule_name}>'' \<and>
   str_format fragment_lib ''<{rule_name}>'' (name (name_rule (Some ''<{rule_name}>'')))
     (rule_id (name_rule (Some ''<{rule_name}>''))) = Some ''<person>''"
proof -
  have f: "fragment_format ''<{rule_name}>'' ''person'' ''d1'' = Some ''<person>''"
    by code_simp
  have "replacement_template (name_rule (Some ''<{rule_name}>'')) = Some ''<{rule_name}>''"
    by (simp add: name_rule_def)
  moreover have
    "str_format fragment_lib ''<{rule_name}>'' (name (name_rule (Some ''<{rule_name}>'')))
       (rule_id (name_rule (Some ''<{rule_name}>''))) = Some ''<person>''"
    by (simp add: name_rule_def default_Rule_def fragment_lib_def f)
  ultimately show ?thesis
    using scenario_C_live [of "Some ''<{rule_name}>''"] by blast
qed

text \<open>
  C3 (amended). For a dictionary rule with the action REPLACE the replacement template
  plays no part: \<open>_apply_dictionary\<close> gives the same result whatever the template is.
  For every key of the dictionary, in order, the occurrences of the key in the working text
  are counted in the report and rewritten by \<open>pattern.sub(value, text)\<close>, with the value
  that the dictionary maps the key to as the replacement string: a value without a
  backslash is written as it is at each occurrence, a value with a backslash is expanded
  at each occurrence as a replacement template of the regular-expression library, and the
  call raises when the library rejects the template. A key without occurrence changes
  nothing. This holds for every dictionary, every value and every library.
\<close>

theorem dictionary_replace_uses_mapped_value:
  "(action rule = ''REPLACE'' \<longrightarrow>
      apply_dictionary L text (rule\<lparr>replacement_template := t\<rparr>) playbook report dry_run =
      apply_dictionary L text rule playbook report dry_run) \<and>
   apply_dictionary L text rule playbook report dry_run =
     dictionary_items L rule playbook dry_run (dictionary rule) (text, report) \<and>
   (action rule = ''REPLACE'' \<and>
    re_finditer L (re_escape key) (case_insensitive rule) text = Some spans \<and> spans \<noteq> [] \<longrightarrow>
      dictionary_items L rule playbook False ((key, val) # rest) (text, report) =
        (case re_sub_template L val spans text of
           None \<Rightarrow> None
         | Some updated \<Rightarrow>
             dictionary_items L rule playbook False rest
               (updated, register_match report rule (int (length spans))))) \<and>
   (re_finditer L (re_escape key) (case_insensitive rule) text = Some [] \<longrightarrow>
      dictionary_items L rule playbook dry_run ((key, val) # rest) (text, report) =
        dictionary_items L rule playbook dry_run rest (text, report)) \<and>
   (CHR 0x5C \<notin> set val \<longrightarrow>
      re_sub_template L val spans text = re_sub_spans (\<lambda>_. Some val) spans 0 text) \<and>
   (CHR 0x5C \<in> set val \<longrightarrow>
      re_sub_template L val spans text = re_sub_spans (re_expand L val) spans 0 text)"
proof (intro conjI impI)
  assume "action rule = ''REPLACE''"
  then show "apply_dictionary L text (rule\<lparr>replacement_template := t\<rparr>) playbook report dry_run =
      apply_dictionary L text rule playbook report dry_run"
    by (simp add: apply_dictionary_def dictionary_items_template)
next
  show "apply_dictionary L text rule playbook report dry_run =
      dictionary_items L rule playbook dry_run (dictionary rule) (text, report)"
    by (simp add: apply_dictionary_def)
next
  assume "action rule = ''REPLACE'' \<and>
    re_finditer L (re_escape key) (case_insensitive rule) text = Some spans \<and> spans \<noteq> []"
  then show "dictionary_items L rule playbook False ((key, val) # rest) (text, report) =
        (case re_sub_template L val spans text of
           None \<Rightarrow> None
         | Some updated \<Rightarrow>
             dictionary_items L rule playbook False rest
               (updated, register_match report rule (int (length spans))))"
    by (simp add: Let_def)
next
  assume "re_finditer L (re_escape key) (case_insensitive rule) text = Some []"
  then show "dictionary_items L rule playbook dry_run ((key, val) # rest) (text, report) =
        dictionary_items L rule playbook dry_run rest (text, report)"
    by simp
next
  assume "CHR 0x5C \<notin> set val"
  then show "re_sub_template L val spans text = re_sub_spans (\<lambda>_. Some val) spans 0 text"
    by (simp add: re_sub_template_def)
next
  assume "CHR 0x5C \<in> set val"
  then show "re_sub_template L val spans text = re_sub_spans (re_expand L val) spans 0 text"
    by (simp add: re_sub_template_def)
qed

theorem dictionary_replace_uses_mapped_value_witness:
  "action (name_rule None) = ''REPLACE'' \<and>
   re_finditer fragment_lib (re_escape ''John Smith'') (case_insensitive (name_rule None))
     ''John Smith called John Smith'' = Some [(0, 10), (18, 28)] \<and>
   CHR 0x5C \<notin> set ''[NAME]'' \<and>
   apply_dictionary fragment_lib ''John Smith called John Smith''
     ((name_rule None)\<lparr>replacement_template := Some ''<{rule_name}>''\<rparr>)
     (scenario_C None) empty_report False =
   Some (''[NAME] called [NAME]'',
     \<lparr>total_matches = 2, matches_by_rule_type = [(''dictionary_entities'', 2)],
      matches_by_rule_id = [(''d1'', 2)]\<rparr>) \<and>
   CHR 0x5C \<in> set [CHR ''x'', CHR 0x5C, CHR ''n'', CHR ''y''] \<and>
   dictionary_items fragment_lib (name_rule None) (scenario_C None) False
     [(''John Smith'', [CHR ''x'', CHR 0x5C, CHR ''n'', CHR ''y''])]
     (''John Smith called John Smith'', empty_report) =
   Some ([CHR ''x'', CHR 0x0A, CHR ''y''] @ '' called '' @ [CHR ''x'', CHR 0x0A, CHR ''y''],
     \<lparr>total_matches = 2, matches_by_rule_type = [(''dictionary_entities'', 2)],
      matches_by_rule_id = [(''d1'', 2)]\<rparr>) \<and>
   re_finditer fragment_lib (re_escape ''Jane'') (case_insensitive (name_rule None))
     ''John Smith called John Smith'' = Some [] \<and>
   dictionary_items fragment_lib (name_rule None) (scenario_C None) False
     [(''Jane'', ''[J]'')] (''John Smith called John Smith'', empty_report) =
   Some (''John Smith called John Smith'', empty_report)"
proof -
  let ?text = "''John Smith called John Smith''"
  let ?spans = "[(0 :: nat, 10 :: nat), (18, 28)]"
  let ?xny = "[CHR ''x'', CHR 0x5C, CHR ''n'', CHR ''y'']"
  let ?r = "\<lparr>total_matches = 2, matches_by_rule_type = [(''dictionary_entities'', 2)],
      matches_by_rule_id = [(''d1'', 2)]\<rparr>"
  have a: "action (name_rule None) = ''REPLACE''"
    and d: "dictionary (name_rule None) = [(''John Smith'', ''[NAME]'')]"
    and c: "case_insensitive (name_rule None) = False"
    by (simp_all add: name_rule_def default_Rule_def)
  have b: "CHR 0x5C \<notin> set ''[NAME]''" and b': "CHR 0x5C \<in> set ?xny"
    by simp_all
  have "fragment_finditer (re_escape ''John Smith'') False ?text = Some ?spans"
    by code_simp
  then have f: "re_finditer fragment_lib (re_escape ''John Smith'')
      (case_insensitive (name_rule None)) ?text = Some ?spans"
    by (simp add: fragment_lib_def c)
  have "fragment_finditer (re_escape ''Jane'') False ?text = Some []"
    by code_simp
  then have g: "re_finditer fragment_lib (re_escape ''Jane'')
      (case_insensitive (name_rule None)) ?text = Some []"
    by (simp add: fragment_lib_def c)
  have ne: "?spans \<noteq> []"
    by simp
  have r: "register_match empty_report (name_rule None) (int (length ?spans)) = ?r"
    by (simp add: register_match_def empty_report_def dict_get_def name_rule_def default_Rule_def)
  have s: "re_sub_spans (\<lambda>_. Some ''[NAME]'') ?spans 0 ?text = Some ''[NAME] called [NAME]''"
    by simp
  have "fragment_expand ?xny m = Some [CHR ''x'', CHR 0x0A, CHR ''y'']" for m
    by simp
  then have s': "re_sub_spans (re_expand fragment_lib ?xny) ?spans 0 ?text =
      Some ([CHR ''x'', CHR 0x0A, CHR ''y''] @ '' called '' @ [CHR ''x'', CHR 0x0A, CHR ''y''])"
    by (simp add: fragment_lib_def)
  note th = dictionary_replace_uses_mapped_value [of "name_rule None" fragment_lib ?text
      "Some ''<{rule_name}>''" "scenario_C None" empty_report False "''John Smith''" ?spans
      "''[NAME]''" "[]"]
  note th' = dictionary_replace_uses_mapped_value [of "name_rule None" fragment_lib ?text
      None "scenario_C None" empty_report False "''John Smith''" ?spans ?xny "[]"]
  note th'' = dictionary_replace_uses_mapped_value [of "name_rule None" fragment_lib ?text
      None "scenario_C None" empty_report False "''Jane''" "[]" "''[J]''" "[]"]
  from th a have 1: "apply_dictionary fragment_lib ?text
      ((name_rule None)\<lparr>replacement_template := Some ''<{rule_name}>''\<rparr>)
      (scenario_C None) empty_report False =
    apply_dictionary fragment_lib ?text (name_rule None) (scenario_C None) empty_report False"
    by blast
  from th have 2: "apply_dictionary fragment_lib ?text (name_rule None) (scenario_C None)
      empty_report False =
    dictionary_items fragment_lib (name_rule None) (scenario_C None) False
      (dictionary (name_rule None)) (?text, empty_report)"
    by blast
  from th a f ne have 3: "dictionary_items fragment_lib (name_rule None) (scenario_C None) False
      [(''John Smith'', ''[NAME]'')] (?text, empty_report) =
    (case re_sub_template fragment_lib ''[NAME]'' ?spans ?text of
       None \<Rightarrow> None
     | Some updated \<Rightarrow>
         dictionary_items fragment_lib (name_rule None) (scenario_C None) False []
           (updated, register_match empty_report (name_rule None) (int (length ?spans))))"
    by blast
  from th b have 4: "re_sub_template fragment_lib ''[NAME]'' ?spans ?text =
      re_sub_spans (\<lambda>_. Some ''[NAME]'') ?spans 0 ?text"
    by blast
  have A: "apply_dictionary fragment_lib ?text
      ((name_rule None)\<lparr>replacement_template := Some ''<{rule_name}>''\<rparr>)
      (scenario_C None) empty_report False = Some (''[NAME] called [NAME]'', ?r)"
    unfolding 1 2 d 3 4 s r by simp
  from th' a f ne have 5: "dictionary_items fragment_lib (name_rule None) (scenario_C None) False
      [(''John Smith'', ?xny)] (?text, empty_report) =
    (case re_sub_template fragment_lib ?xny ?spans ?text of
       None \<Rightarrow> None
     | Some updated \<Rightarrow>
         dictionary_items fragment_lib (name_rule None) (scenario_C None) False []
           (updated, register_match empty_report (name_rule None) (int (length ?spans))))"
    by blast
  from th' b' have 6: "re_sub_template fragment_lib ?xny ?spans ?text =
      re_sub_spans (re_expand fragment_lib ?xny) ?spans 0 ?text"
    by blast
  have B: "dictionary_items fragment_lib (name_rule None) (scenario_C None) False
      [(''John Smith'', ?xny)] (?text, empty_report) =
    Some ([CHR ''x'', CHR 0x0A, CHR ''y''] @ '' called '' @ [CHR ''x'', CHR 0x0A, CHR ''y''], ?r)"
    unfolding 5 6 s' r by simp
  from th'' g have "dictionary_items fragment_lib (name_rule None) (scenario_C None) False
      [(''Jane'', ''[J]'')] (?text, empty_report) =
    dictionary_items fragment_lib (name_rule None) (scenario_C None) False []
      (?text, empty_report)"
    by blast
  then have C: "dictionary_items fragment_lib (name_rule None) (scenario_C None) False
      [(''Jane'', ''[J]'')] (?text, empty_report) = Some (?text, empty_report)"
    by simp
  from a f b A b' B g C show ?thesis
    by blast
qed

section \<open>Dry run and live run\<close>


lemma regex_entries_no_steps:
  "filter has_pattern es = [] \<Longrightarrow> regex_entries L rule pb d es st = Some st"
proof (induction es)
  case Nil
  show ?case by simp
next
  case (Cons e es)
  obtain u r where st: "st = (u, r)" by (cases st)
  from Cons.prems have e: "\<not> has_pattern e" and "filter has_pattern es = []"
    by (auto split: if_splits)
  then have ih: "regex_entries L rule pb d es (u, r) = Some (u, r)"
    using Cons.IH by (simp add: st)
  from e have "pattern e = None \<or> pattern e = Some []"
    by (auto simp: has_pattern_def split: option.splits)
  then show ?case
    by (auto simp: st ih)
qed

lemma apply_rule_no_steps:
  "rule_steps rule = 0 \<Longrightarrow> apply_rule L text rule pb report d = Some (text, report)"
  by (auto simp: rule_steps_def apply_rule_def apply_dictionary_def apply_regex_patterns_def
      apply_keywords_def regex_entries_no_steps split: if_splits)

lemma rule_loop_no_steps:
  "sum_list (map rule_steps rs) = 0 \<Longrightarrow> rule_loop L pb d rs st = Some st"
proof (induction rs)
  case Nil
  show ?case by simp
next
  case (Cons rule rs)
  obtain u r where st: "st = (u, r)" by (cases st)
  from Cons show ?case
    by (simp add: st apply_rule_no_steps)
qed
lemma dictionary_items_one_step:
  assumes "length items \<le> 1"
    and "dictionary_items L rule pb False items (u, r) = Some (u', r')"
  shows "dictionary_items L rule pb True items (u, r) = Some (u, r')"
proof (cases items)
  case Nil
  with assms(2) show ?thesis by simp
next
  case (Cons it rest)
  with assms(1) have rest: "rest = []" by simp
  obtain target replacement where it: "it = (target, replacement)" by (cases it)
  from assms(2) show ?thesis
    by (auto simp: Cons rest it Let_def split: option.splits if_splits)
qed
lemma regex_entries_one_step:
  "length (filter has_pattern es) \<le> 1 \<Longrightarrow>
   regex_entries L rule pb False es (u, r) = Some (u', r') \<Longrightarrow>
   regex_entries L rule pb True es (u, r) = Some (u, r')"
proof (induction es)
  case Nil
  then show ?case by simp
next
  case (Cons e es)
  show ?case
  proof (cases "has_pattern e")
    case False
    then have "pattern e = None \<or> pattern e = Some []"
      by (auto simp: has_pattern_def split: option.splits)
    moreover from False Cons.prems(1) have "length (filter has_pattern es) \<le> 1"
      by simp
    note Cons.IH [OF this]
    ultimately show ?thesis
      using Cons.prems(2) by auto
  next
    case True
    with Cons.prems(1) have "filter has_pattern es = []" by simp
    then have skip: "regex_entries L rule pb d es st = Some st" for d st
      by (rule regex_entries_no_steps)
    from True obtain p where p: "pattern e = Some p" "p \<noteq> []"
      by (auto simp: has_pattern_def split: option.splits)
    from Cons.prems(2) show ?thesis
      by (auto simp: p skip Let_def split: option.splits if_splits)
  qed
qed
lemma apply_keywords_dry:
  "apply_keywords L text rule pb r False = Some (u', r') \<Longrightarrow>
   apply_keywords L text rule pb r True = Some (text, r')"
  by (auto simp: apply_keywords_def Let_def split: option.splits if_splits)

lemma apply_rule_one_step:
  "rule_steps rule \<le> 1 \<Longrightarrow> apply_rule L text rule pb r False = Some (u', r') \<Longrightarrow>
   apply_rule L text rule pb r True = Some (text, r')"
  by (auto simp: rule_steps_def apply_rule_def apply_dictionary_def apply_regex_patterns_def
      dictionary_items_one_step regex_entries_one_step apply_keywords_dry split: if_splits)
lemma rule_loop_one_step:
  "sum_list (map rule_steps rs) \<le> 1 \<Longrightarrow>
   rule_loop L pb False rs (u, r) = Some (u', r') \<Longrightarrow>
   rule_loop L pb True rs (u, r) = Some (u, r')"
proof (induction rs)
  case Nil
  then show ?case by simp
next
  case (Cons rule rs)
  show ?case
  proof (cases "rule_steps rule = 0")
    case True
    with Cons show ?thesis
      by (simp add: apply_rule_no_steps)
  next
    case False
    from Cons.prems(1) have "rule_steps rule + sum_list (map rule_steps rs) \<le> 1"
      by simp
    with False have one: "rule_steps rule \<le> 1" and "sum_list (map rule_steps rs) = 0"
      by linarith+
    then have skip: "rule_loop L pb d rs st = Some st" for d st
      by (simp add: rule_loop_no_steps)
    from Cons.prems(2) have "apply_rule L u rule pb r False = Some (u', r')"
      by (simp add: skip split: option.splits)
    from apply_rule_one_step [OF one this] show ?thesis
      by (simp add: skip)
  qed
qed
lemma rule_loop_append:
  "rule_loop L pb d (xs @ ys) st =
     (case rule_loop L pb d xs st of None \<Rightarrow> None | Some st' \<Rightarrow> rule_loop L pb d ys st')"
proof (induction xs arbitrary: st)
  case Nil
  show ?case by simp
next
  case (Cons x xs)
  obtain u r where st: "st = (u, r)" by (cases st)
  show ?case
    by (simp add: st Cons.IH split: option.splits)
qed

lemma rule_type_loop_concat:
  "rule_type_loop L pb d tys st = rule_loop L pb d (concat (map (rules_by_type pb) tys)) st"
  by (induction tys arbitrary: st) (simp_all add: rule_loop_append split: option.splits)
text \<open>
  C1 (amended). A dry run makes every matcher step search the allowlist-protected input
  text, because no replacement is ever written back; a live run makes each step search
  the text that the earlier steps have left. For every text and every playbook whose rules
  make at most one matcher step, a dry run returns the same report (total and both
  dictionaries) as the live run.
\<close>

theorem dry_run_counts_single_step:
  assumes "playbook_steps playbook \<le> 1"
    and "apply_rules L text playbook False = Some (out, report)"
  shows "\<exists>out'. apply_rules L text playbook True = Some (out', report)"
proof -
  let ?tys = "[''dictionary_entities'', ''regex_patterns'', ''keyword_list'']"
  let ?rs = "concat (map (rules_by_type playbook) ?tys)"
  from assms(2) obtain protected placeholders u where
    al: "apply_allowlist L text (rules_by_type playbook ''allowlist'') = Some (protected, placeholders)"
    and live: "rule_type_loop L playbook False ?tys (protected, empty_report) = Some (u, report)"
    by (auto simp: apply_rules_def simp del: rule_type_loop.simps split: option.splits)
  from live have "rule_loop L playbook False ?rs (protected, empty_report) = Some (u, report)"
    by (simp only: rule_type_loop_concat)
  with assms(1) have "rule_loop L playbook True ?rs (protected, empty_report) = Some (protected, report)"
    unfolding playbook_steps_def by (rule rule_loop_one_step)
  then have "rule_type_loop L playbook True ?tys (protected, empty_report) = Some (protected, report)"
    by (simp only: rule_type_loop_concat)
  with al show ?thesis
    by (simp add: apply_rules_def del: rule_type_loop.simps)
qed


theorem dry_run_counts_single_step_witness:
  "playbook_steps (scenario_A ''r1'' ''ssn'') \<le> 1 \<and>
   apply_rules fragment_lib ''SSN: 123-45-6789 end'' (scenario_A ''r1'' ''ssn'') False =
     Some (''SSN: *********** end'',
       \<lparr>total_matches = 1, matches_by_rule_type = [(''regex_patterns'', 1)],
        matches_by_rule_id = [(''r1'', 1)]\<rparr>) \<and>
   (\<exists>out'. apply_rules fragment_lib ''SSN: 123-45-6789 end'' (scenario_A ''r1'' ''ssn'') True =
     Some (out',
       \<lparr>total_matches = 1, matches_by_rule_type = [(''regex_patterns'', 1)],
        matches_by_rule_id = [(''r1'', 1)]\<rparr>))"
proof -
  have "has_pattern \<lparr>pattern = Some ssn_pattern, entry_case_insensitive = False\<rparr>"
    by (simp add: has_pattern_def ssn_pattern_nonempty)
  then have steps: "playbook_steps (scenario_A ''r1'' ''ssn'') \<le> 1"
    by (simp add: playbook_steps_def rules_by_type_scenario_A rule_steps_def ssn_rule_def
        default_Rule_def)
  have live: "apply_rules fragment_lib ''SSN: 123-45-6789 end'' (scenario_A ''r1'' ''ssn'') False =
     Some (''SSN: *********** end'',
       \<lparr>total_matches = 1, matches_by_rule_type = [(''regex_patterns'', 1)],
        matches_by_rule_id = [(''r1'', 1)]\<rparr>)"
    by (rule scenario_A_live)
  from steps live dry_run_counts_single_step [OF steps live] show ?thesis
    by blast
qed

text \<open>
  C1 as stated fails. In the live run the dictionary rule writes \<open>[NAME]\<close> twice, and the
  keyword rule then matches \<open>NAME\<close> in what was written: four matches. In the dry run
  nothing is written, the keyword rule finds nothing, and the report has two matches.
\<close>

theorem dry_run_counts_counterexample:
  "apply_rules fragment_lib ''John Smith called John Smith'' pass_through_playbook False =
     Some (''[[BLURRED]] called [[BLURRED]]'',
       \<lparr>total_matches = 4,
        matches_by_rule_type = [(''dictionary_entities'', 2), (''keyword_list'', 2)],
        matches_by_rule_id = [(''d1'', 2), (''k1'', 2)]\<rparr>) \<and>
   apply_rules fragment_lib ''John Smith called John Smith'' pass_through_playbook True =
     Some (''John Smith called John Smith'',
       \<lparr>total_matches = 2, matches_by_rule_type = [(''dictionary_entities'', 2)],
        matches_by_rule_id = [(''d1'', 2)]\<rparr>)"
  by code_simp

section \<open>The structural cleaner\<close>


lemma remove_nodes_forest:
  "remove_nodes t (Element tg a tx cs ta) = Element tg a tx (remove_forest t cs) ta"
  by (simp add: remove_forest_def)

lemma unwrap_nodes_forest:
  "unwrap_nodes t (Element tg a tx cs ta) = Element tg a tx (unwrap_forest t cs) ta"
  by (simp add: unwrap_forest_def)

lemma remove_forest_append:
  "remove_forest t (xs @ ys) = remove_forest t xs @ remove_forest t ys"
  by (simp add: remove_forest_def)

lemma unwrap_forest_append:
  "unwrap_forest t (xs @ ys) = unwrap_forest t xs @ unwrap_forest t ys"
  by (simp add: unwrap_forest_def)

lemma accept_forest_append:
  "accept_forest (xs @ ys) = accept_forest xs @ accept_forest ys"
  by (simp add: accept_forest_def remove_forest_append unwrap_forest_append)

lemma accept_forest_Nil: "accept_forest [] = []"
  by (simp add: accept_forest_def remove_forest_def unwrap_forest_def)

lemma accept_forest_concat:
  "accept_forest ns = concat (map (\<lambda>n. accept_forest [n]) ns)"
proof (induction ns)
  case Nil
  show ?case by (simp add: accept_forest_Nil)
next
  case (Cons n ns)
  have "accept_forest (n # ns) = accept_forest [n] @ accept_forest ns"
    using accept_forest_append [of "[n]" ns] by simp
  with Cons show ?case by simp
qed

lemma accept_revisions_forest:
  "accept_revisions (Element tg a tx cs ta) = Element tg a tx (accept_forest cs) ta"
  by (simp add: accept_revisions_def accept_forest_def remove_nodes_forest unwrap_nodes_forest
      del: remove_nodes.simps unwrap_nodes.simps)
lemma accept_forest_single:
  "accept_forest [Element tg a tx cs ta] =
     (if tg = ''w:del'' \<or> tg = ''w:moveFrom'' then []
      else if tg = ''w:ins'' \<or> tg = ''w:moveTo'' then accept_forest cs
      else [Element tg a tx (accept_forest cs) ta])"
proof -
  have 1: "remove_forest t [Element tg a tx cs ta] =
      (if tg = t then [] else [Element tg a tx (remove_forest t cs) ta])" for t tg a tx cs ta
    by (simp add: remove_forest_def)
  have 2: "unwrap_forest t [Element tg a tx cs ta] =
      (if tg = t then unwrap_forest t cs else [Element tg a tx (unwrap_forest t cs) ta])"
    for t tg a tx cs ta
    by (simp add: unwrap_forest_def)
  have 3: "remove_forest t [] = []" "unwrap_forest t [] = []" for t
    by (simp_all add: remove_forest_def unwrap_forest_def)
  show ?thesis
    by (simp add: accept_forest_def 1 2 3)
qed
lemma accept_forest_accepted: "accept_forest [n] = accepted n"
proof (induction n)
  case (Element tg a tx cs ta)
  have "accept_forest cs = concat (map (\<lambda>n. accept_forest [n]) cs)"
    by (rule accept_forest_concat)
  also have "\<dots> = concat (map accepted cs)"
    using Element.IH by (simp cong: map_cong)
  finally show ?case
    by (simp add: accept_forest_single)
qed

lemma accept_forest_eq: "accept_forest ns = concat (map accepted ns)"
  using accept_forest_concat [of ns] by (simp add: accept_forest_accepted)
lemma accepted_tags:
  "\<forall>c\<in>set (accepted n). \<forall>t\<in>set (tags_of c). t \<notin> set revision_tags"
proof (induction n)
  case (Element tg a tx cs ta)
  have ih: "\<forall>c\<in>set (concat (map accepted cs)). \<forall>t\<in>set (tags_of c). t \<notin> set revision_tags"
    using Element.IH by auto
  show ?case
  proof (cases "tg \<in> set revision_tags")
    case True
    then show ?thesis
      using ih by (auto simp: revision_tags_def)
  next
    case False
    then have "accepted (Element tg a tx cs ta) = [Element tg a tx (concat (map accepted cs)) ta]"
      by (auto simp: revision_tags_def)
    then show ?thesis
      using ih False by auto
  qed
qed



lemma map_of_dict_set:
  "map_of (dict_set m k v) k' = (if k' = k then Some v else map_of m k')"
  by (induction m) auto

lemma map_of_dict_pop:
  "map_of (dict_pop m k) k' = (if k' = k then None else map_of m k')"
  by (induction m) (auto simp: dict_pop_def)

lemma map_of_remove_comments_part:
  "map_of (remove_comments_part parts) nm =
     (if nm = ''word/comments.xml'' then None else map_of parts nm)"
proof (cases "''word/comments.xml'' \<in> fst ` set parts")
  case True
  then show ?thesis
    by (simp add: remove_comments_part_def map_of_dict_pop)
next
  case False
  then have "map_of parts ''word/comments.xml'' = None"
    by (simp add: map_of_eq_None_iff)
  with False show ?thesis
    by (simp add: remove_comments_part_def)
qed

lemma clean_fold_other:
  "nm \<notin> fst ` set ps \<Longrightarrow>
   map_of (fold (\<lambda>(n, d) cleaned. case clean_part X n d of None \<Rightarrow> cleaned
                  | Some out \<Rightarrow> dict_set cleaned n out) ps m) nm = map_of m nm"
proof (induction ps arbitrary: m)
  case Nil
  show ?case by simp
next
  case (Cons p ps)
  obtain n d where p: "p = (n, d)" by (cases p)
  from Cons.prems have "nm \<noteq> n" and "nm \<notin> fst ` set ps"
    by (auto simp: p)
  then show ?case
    by (simp add: p Cons.IH map_of_dict_set split: option.splits)
qed

lemma clean_fold_at:
  "distinct (map fst ps) \<Longrightarrow> (nm, data) \<in> set ps \<Longrightarrow>
   map_of (fold (\<lambda>(n, d) cleaned. case clean_part X n d of None \<Rightarrow> cleaned
                  | Some out \<Rightarrow> dict_set cleaned n out) ps m) nm =
     (case clean_part X nm data of None \<Rightarrow> map_of m nm | Some out \<Rightarrow> Some out)"
proof (induction ps arbitrary: m)
  case Nil
  then show ?case by simp
next
  case (Cons p ps)
  obtain n d where p: "p = (n, d)" by (cases p)
  show ?case
  proof (cases "(nm, data) = p")
    case True
    with Cons.prems(1) have "nm \<notin> fst ` set ps"
      by (auto simp: p)
    with True show ?thesis
      by (simp add: p [symmetric] clean_fold_other map_of_dict_set split: option.splits)
       (auto simp: p clean_fold_other map_of_dict_set split: option.splits)
  next
    case False
    with Cons.prems have in_ps: "(nm, data) \<in> set ps" and d: "distinct (map fst ps)"
      and "nm \<noteq> n"
      by (auto simp: p rev_image_eqI)
    then show ?thesis
      by (simp add: p Cons.IH [OF d in_ps] map_of_dict_set split: option.splits)
  qed
qed
lemma clean_docx_parts_at:
  assumes "distinct (map fst parts)" and "(nm, data) \<in> set parts"
    and "nm \<noteq> ''word/comments.xml''"
  shows "map_of (clean_docx_parts X parts) nm =
     (case clean_part X nm data of None \<Rightarrow> Some data | Some out \<Rightarrow> Some out)"
proof -
  from assms(1,2) have "map_of parts nm = Some data"
    by simp
  then show ?thesis
    using assms(3) clean_fold_at [OF assms(1,2), of X parts]
    by (simp add: clean_docx_parts_def map_of_remove_comments_part split: option.splits)
qed

lemma comments_part_absent: "''word/comments.xml'' \<notin> fst ` set (clean_docx_parts X parts)"
proof -
  have "map_of (clean_docx_parts X parts) ''word/comments.xml'' = None"
    by (simp add: clean_docx_parts_def map_of_remove_comments_part)
  then show ?thesis
    by (simp add: map_of_eq_None_iff)
qed
lemma clean_part_word:
  assumes "startswith nm ''word/''" and "endswith nm ''.xml''" and "fromstring X data = Some tree"
  shows "clean_part X nm data = Some (tostring X (remove_comments (accept_revisions tree)))"
proof -
  have "\<not> startswith ''docProps/core.xml'' ''word/''" "\<not> startswith ''docProps/custom.xml'' ''word/''"
    by (simp_all add: startswith_def)
  with assms(1) have "nm \<noteq> ''docProps/core.xml''" "nm \<noteq> ''docProps/custom.xml''"
    by auto
  with assms show ?thesis
    by (simp add: clean_part_def)
qed

lemma clean_part_malformed: "fromstring X data = None \<Longrightarrow> clean_part X nm data = None"
  by (simp add: clean_part_def)



lemma remove_nodes_tags: "set (tags_of (remove_nodes t n)) \<subseteq> set (tags_of n)"
proof (induction n)
  case (Element tg a tx cs ta)
  have "set (concat (map tags_of (map (remove_nodes t) (filter (\<lambda>c. tag c \<noteq> t) cs)))) \<subseteq>
      set (concat (map tags_of cs))"
    using Element.IH by fastforce
  then show ?case
    by auto
qed

lemma remove_nodes_below:
  "\<forall>c\<in>set (children n). \<forall>t\<in>set (tags_of c). P t \<Longrightarrow>
   \<forall>c\<in>set (children (remove_nodes u n)). \<forall>t\<in>set (tags_of c). P t"
proof (cases n)
  case (Element tg a tx cs ta)
  assume a: "\<forall>c\<in>set (children n). \<forall>t\<in>set (tags_of c). P t"
  show ?thesis
  proof (intro ballI)
    fix c t
    assume "c \<in> set (children (remove_nodes u n))" and t: "t \<in> set (tags_of c)"
    then obtain c0 where c0: "c0 \<in> set cs" and c: "c = remove_nodes u c0"
      by (auto simp: Element)
    from t c remove_nodes_tags [of u c0] have "t \<in> set (tags_of c0)"
      by auto
    with a c0 show "P t"
      by (auto simp: Element)
  qed
qed

lemma remove_comments_below:
  "\<forall>c\<in>set (children n). \<forall>t\<in>set (tags_of c). P t \<Longrightarrow>
   \<forall>c\<in>set (children (remove_comments n)). \<forall>t\<in>set (tags_of c). P t"
  unfolding remove_comments_def fold_simps id_apply
  by (intro remove_nodes_below)
lemma accept_revisions_below:
  "\<forall>c\<in>set (children (accept_revisions n)). \<forall>t\<in>set (tags_of c). t \<notin> set revision_tags"
proof (cases n)
  case (Element tg a tx cs ta)
  show ?thesis
    using accepted_tags
    by (simp add: Element accept_revisions_forest accept_forest_eq del: accepted.simps tags_of.simps)
qed
text \<open>
  C7 (amended). In every word part that parses, the cleaner removes each deletion
  (\<open>w:del\<close>) and move-source (\<open>w:moveFrom\<close>) node below the root with its whole subtree,
  and replaces each insertion (\<open>w:ins\<close>) and move-destination (\<open>w:moveTo\<close>) wrapper below
  the root by its children, at the wrapper's place and in order: the four passes of the
  code give the children that the one-pass reading \<open>accepted\<close> gives, the tree that is
  serialised has none of the four tags below its root, and the root element itself,
  whatever its tag, is kept. The comments part \<open>word/comments.xml\<close> is never among the
  output parts.
\<close>

theorem cleaner_accepts_revisions:
  "accept_revisions (Element tg a tx cs ta) = Element tg a tx (concat (map accepted cs)) ta \<and>
   (\<forall>c\<in>set (children (remove_comments (accept_revisions tree))).
      \<forall>t\<in>set (tags_of c). t \<notin> set revision_tags) \<and>
   ''word/comments.xml'' \<notin> fst ` set (clean_docx_parts X parts) \<and>
   (distinct (map fst parts) \<and> (nm, data) \<in> set parts \<and> startswith nm ''word/'' \<and>
    endswith nm ''.xml'' \<and> nm \<noteq> ''word/comments.xml'' \<and> fromstring X data = Some tree \<longrightarrow>
      map_of (clean_docx_parts X parts) nm =
        Some (tostring X (remove_comments (accept_revisions tree))))"
proof (intro conjI impI)
  show "accept_revisions (Element tg a tx cs ta) = Element tg a tx (concat (map accepted cs)) ta"
    by (simp only: accept_revisions_forest accept_forest_eq)
next
  show "\<forall>c\<in>set (children (remove_comments (accept_revisions tree))).
      \<forall>t\<in>set (tags_of c). t \<notin> set revision_tags"
    using accept_revisions_below by (rule remove_comments_below)
next
  show "''word/comments.xml'' \<notin> fst ` set (clean_docx_parts X parts)"
    by (rule comments_part_absent)
next
  assume h: "distinct (map fst parts) \<and> (nm, data) \<in> set parts \<and> startswith nm ''word/'' \<and>
    endswith nm ''.xml'' \<and> nm \<noteq> ''word/comments.xml'' \<and> fromstring X data = Some tree"
  then have "clean_part X nm data = Some (tostring X (remove_comments (accept_revisions tree)))"
    by (simp add: clean_part_word)
  moreover from h have "distinct (map fst parts)" "(nm, data) \<in> set parts"
    "nm \<noteq> ''word/comments.xml''"
    by simp_all
  note clean_docx_parts_at [OF this, of X]
  ultimately show "map_of (clean_docx_parts X parts) nm =
      Some (tostring X (remove_comments (accept_revisions tree)))"
    by simp
qed



theorem cleaner_accepts_revisions_witness:
  "accept_revisions revised_document = accepted_document \<and>
   distinct (map fst [(''word/document.xml'', [60 :: 8 word]), (''word/comments.xml'', [61])]) \<and>
   startswith ''word/document.xml'' ''word/'' \<and> endswith ''word/document.xml'' ''.xml'' \<and>
   fromstring (reads_as revised_document [1]) [60] = Some revised_document \<and>
   map_of (clean_docx_parts (reads_as revised_document [1])
       [(''word/document.xml'', [60]), (''word/comments.xml'', [61])]) ''word/document.xml'' =
     Some [1] \<and>
   ''word/comments.xml'' \<notin> fst ` set (clean_docx_parts (reads_as revised_document [1])
       [(''word/document.xml'', [60]), (''word/comments.xml'', [61])])"
proof -
  let ?X = "reads_as revised_document [1]"
  let ?parts = "[(''word/document.xml'', [60 :: 8 word]), (''word/comments.xml'', [61])]"
  let ?body = "[Element ''w:body'' [] None
          [Element ''w:p'' [] None
             [text_run ''kept'',
              Element ''w:del'' [] None [text_run ''old''] None,
              Element ''w:ins'' [] None
                [text_run ''new'', Element ''w:moveTo'' [] None [text_run ''moved''] None] None,
              Element ''w:moveFrom'' [] None [text_run ''gone''] None,
              Element ''w:commentReference'' [(''w:id'', ''0'')] None [] None]
             None]
          None]"
  note th = cleaner_accepts_revisions [of "''w:document''" "[]" None ?body None
      revised_document ?X ?parts "''word/document.xml''" "[60]"]
  have acc: "concat (map accepted ?body) = children accepted_document"
    by (simp add: accepted_document_def text_run_def)
  from th have "accept_revisions (Element ''w:document'' [] None ?body None) =
      Element ''w:document'' [] None (concat (map accepted ?body)) None"
    by blast
  then have 1: "accept_revisions revised_document = accepted_document"
    unfolding acc by (simp add: revised_document_def accepted_document_def)
  have d: "distinct (map fst ?parts)" "(''word/document.xml'', [60]) \<in> set ?parts"
    "''word/document.xml'' \<noteq> ''word/comments.xml''"
    by simp_all
  have s: "startswith ''word/document.xml'' ''word/''" "endswith ''word/document.xml'' ''.xml''"
    by (simp_all add: startswith_def endswith_def)
  have f: "fromstring ?X [60] = Some revised_document"
    by (simp add: reads_as_def)
  have t: "tostring ?X (remove_comments (accept_revisions revised_document)) = [1]"
    by (simp add: reads_as_def)
  from th d s f have "map_of (clean_docx_parts ?X ?parts) ''word/document.xml'' =
      Some (tostring ?X (remove_comments (accept_revisions revised_document)))"
    by blast
  then have 2: "map_of (clean_docx_parts ?X ?parts) ''word/document.xml'' = Some [1]"
    unfolding t .
  from th have 3: "''word/comments.xml'' \<notin> fst ` set (clean_docx_parts ?X ?parts)"
    by blast
  from 1 d(1) s f 2 3 show ?thesis
    by blast
qed
text \<open>
  C7 as stated fails for a node that is the root of its part: \<open>.//w:del\<close> selects only
  nodes below the root, and a node without a parent is never removed, so a part whose root
  is a deletion node comes out as it went in.
\<close>

theorem root_deletion_counterexample:
  "accept_revisions deletion_root = deletion_root \<and>
   remove_comments (accept_revisions deletion_root) = deletion_root \<and>
   tag deletion_root = ''w:del''"
  by code_simp

section \<open>Parts that do not parse\<close>


lemma parts_loop_keeps:
  "\<forall>p\<in>set ps. fst p = nm \<longrightarrow> fromstring X (snd p) = None \<Longrightarrow>
   parts_loop L X pb d ps (u, r) = Some (u', r') \<Longrightarrow> map_of u' nm = map_of u nm"
proof (induction ps arbitrary: u r)
  case Nil
  then show ?case by simp
next
  case (Cons p ps)
  obtain n dat where p: "p = (n, dat)" by (cases p)
  from Cons.prems(1) have rest: "\<forall>p\<in>set ps. fst p = nm \<longrightarrow> fromstring X (snd p) = None"
    and here: "n = nm \<longrightarrow> fromstring X dat = None"
    by (simp_all add: p)
  show ?case
  proof (cases "\<not> startswith n ''word/'' \<or> \<not> endswith n ''.xml'' \<or> fromstring X dat = None")
    case True
    with Cons.prems(2) have "parts_loop L X pb d ps (u, r) = Some (u', r')"
      by (auto simp: p split: if_splits)
    with rest show ?thesis by (rule Cons.IH)
  next
    case False
    with here have ne: "n \<noteq> nm" by auto
    from False obtain tree where t: "fromstring X dat = Some tree" by auto
    with False Cons.prems(2) obtain u2 r2 where
      pl: "parts_loop L X pb d ps (u2, r2) = Some (u', r')" and
      u2: "map_of u2 nm = map_of u nm"
      using ne by (auto simp: p map_of_dict_set split: option.splits if_splits)
    from Cons.IH [OF rest pl] u2 show ?thesis by simp
  qed
qed
lemma parts_loop_report:
  "\<forall>p\<in>set ps. fst p = nm \<longrightarrow> fromstring X (snd p) = None \<Longrightarrow>
   map_option snd (parts_loop L X pb d ps (u, r)) =
   map_option snd (parts_loop L X pb d (filter (\<lambda>p. fst p \<noteq> nm) ps) (v, r))"
proof (induction ps arbitrary: u v r)
  case Nil
  show ?case by simp
next
  case (Cons p ps)
  obtain n dat where p: "p = (n, dat)" by (cases p)
  from Cons.prems have rest: "\<forall>p\<in>set ps. fst p = nm \<longrightarrow> fromstring X (snd p) = None"
    and here: "n = nm \<longrightarrow> fromstring X dat = None"
    by (simp_all add: p)
  note ih = Cons.IH [OF rest]
  show ?case
  proof (cases "n = nm")
    case True
    with here show ?thesis
      using ih [of u r v] by (simp add: p)
  next
    case False
    show ?thesis
    proof (cases "\<not> startswith n ''word/'' \<or> \<not> endswith n ''.xml'' \<or> fromstring X dat = None")
      case True
      then show ?thesis
        using False ih [of u r v] by (auto simp: p)
    next
      case skip: False
      then obtain tree where t: "fromstring X dat = Some tree" by auto
      show ?thesis
      proof (cases "redact_nodes L pb d (children tree) (r, False)")
        case None
        with skip t False show ?thesis by (simp add: p)
      next
        case (Some res)
        obtain cs' agg m where res: "res = (cs', agg, m)" by (cases res)
        from skip t False Some show ?thesis
          using ih by (simp add: p res)
      qed
    qed
  qed
qed
text \<open>
  C6 (amended). A part whose bytes fail to parse as XML makes neither function fail. The
  cleaner carries it to its output byte for byte unless it is the comments part
  \<open>word/comments.xml\<close>, which the cleaner drops whether it parses or not. The per-part
  rule application carries it to its output byte for byte, and its report, and whether it
  returns at all, are what they are for the parts mapping without this part.
\<close>

theorem malformed_part_carried:
  "distinct (map fst parts) \<and> (nm, data) \<in> set parts \<and> fromstring X data = None \<longrightarrow>
     (nm \<noteq> ''word/comments.xml'' \<longrightarrow> map_of (clean_docx_parts X parts) nm = Some data) \<and>
     (\<forall>updated aggregate.
        apply_rules_to_parts L X parts playbook dry_run = Some (updated, aggregate) \<longrightarrow>
        map_of updated nm = Some data) \<and>
     map_option snd (apply_rules_to_parts L X parts playbook dry_run) =
       map_option snd
         (apply_rules_to_parts L X (filter (\<lambda>p. fst p \<noteq> nm) parts) playbook dry_run)"
proof (intro impI)
  assume h: "distinct (map fst parts) \<and> (nm, data) \<in> set parts \<and> fromstring X data = None"
  then have d: "distinct (map fst parts)" and m: "(nm, data) \<in> set parts"
    and f: "fromstring X data = None"
    by simp_all
  from d m have look: "map_of parts nm = Some data"
    by simp
  have only: "\<forall>p\<in>set parts. fst p = nm \<longrightarrow> fromstring X (snd p) = None"
  proof (intro ballI impI)
    fix p
    assume "p \<in> set parts" and "fst p = nm"
    with d m have "snd p = data"
      by (metis eq_key_imp_eq_value prod.collapse)
    with f show "fromstring X (snd p) = None" by simp
  qed
  have 1: "nm \<noteq> ''word/comments.xml'' \<longrightarrow> map_of (clean_docx_parts X parts) nm = Some data"
    using clean_docx_parts_at [OF d m, of X] clean_part_malformed [OF f, of nm] by simp
  have 2: "\<forall>updated aggregate.
      apply_rules_to_parts L X parts playbook dry_run = Some (updated, aggregate) \<longrightarrow>
      map_of updated nm = Some data"
    using parts_loop_keeps [OF only] look by (auto simp: apply_rules_to_parts_def)
  have 3: "map_option snd (apply_rules_to_parts L X parts playbook dry_run) =
      map_option snd
        (apply_rules_to_parts L X (filter (\<lambda>p. fst p \<noteq> nm) parts) playbook dry_run)"
    unfolding apply_rules_to_parts_def by (rule parts_loop_report [OF only])
  from 1 2 3 show "(nm \<noteq> ''word/comments.xml'' \<longrightarrow> map_of (clean_docx_parts X parts) nm = Some data) \<and>
     (\<forall>updated aggregate.
        apply_rules_to_parts L X parts playbook dry_run = Some (updated, aggregate) \<longrightarrow>
        map_of updated nm = Some data) \<and>
     map_option snd (apply_rules_to_parts L X parts playbook dry_run) =
       map_option snd
         (apply_rules_to_parts L X (filter (\<lambda>p. fst p \<noteq> nm) parts) playbook dry_run)"
    by blast
qed

theorem malformed_part_carried_witness:
  "distinct (map fst [(''word/document.xml'', [60 :: 8 word]), (''word/broken.xml'', [])]) \<and>
   fromstring (reads_as ssn_document [1]) [] = None \<and>
   map_of (clean_docx_parts (reads_as ssn_document [1])
       [(''word/document.xml'', [60]), (''word/broken.xml'', [])]) ''word/broken.xml'' = Some [] \<and>
   apply_rules_to_parts fragment_lib (reads_as ssn_document [1])
       [(''word/document.xml'', [60]), (''word/broken.xml'', [])] (scenario_A ''r1'' ''ssn'') False =
     Some ([(''word/document.xml'', [1]), (''word/broken.xml'', [])],
       \<lparr>total_matches = 1, matches_by_rule_type = [(''regex_patterns'', 1)],
        matches_by_rule_id = [(''r1'', 1)]\<rparr>) \<and>
   map_option snd (apply_rules_to_parts fragment_lib (reads_as ssn_document [1])
       [(''word/document.xml'', [60])] (scenario_A ''r1'' ''ssn'') False) =
     Some \<lparr>total_matches = 1, matches_by_rule_type = [(''regex_patterns'', 1)],
        matches_by_rule_id = [(''r1'', 1)]\<rparr>"
proof -
  let ?X = "reads_as ssn_document [1]"
  let ?parts = "[(''word/document.xml'', [60 :: 8 word]), (''word/broken.xml'', [])]"
  let ?r = "\<lparr>total_matches = 1, matches_by_rule_type = [(''regex_patterns'', 1)],
        matches_by_rule_id = [(''r1'', 1)]\<rparr>"
  have d: "distinct (map fst ?parts)" and m: "(''word/broken.xml'', []) \<in> set ?parts"
    and n: "''word/broken.xml'' \<noteq> ''word/comments.xml''"
    by simp_all
  have f: "fromstring ?X [] = None"
    by (simp add: reads_as_def)
  have fl: "filter (\<lambda>p. fst p \<noteq> ''word/broken.xml'') ?parts = [(''word/document.xml'', [60])]"
    by simp
  have run: "apply_rules_to_parts fragment_lib ?X ?parts (scenario_A ''r1'' ''ssn'') False =
      Some ([(''word/document.xml'', [1]), (''word/broken.xml'', [])], ?r)"
    by code_simp
  note th = malformed_part_carried [of ?parts "''word/broken.xml''" "[]" ?X fragment_lib
      "scenario_A ''r1'' ''ssn''" False]
  from th d m f n have 1: "map_of (clean_docx_parts ?X ?parts) ''word/broken.xml'' = Some []"
    by blast
  from th d m f have "map_option snd (apply_rules_to_parts fragment_lib ?X ?parts
        (scenario_A ''r1'' ''ssn'') False) =
      map_option snd (apply_rules_to_parts fragment_lib ?X
        (filter (\<lambda>p. fst p \<noteq> ''word/broken.xml'') ?parts) (scenario_A ''r1'' ''ssn'') False)"
    by blast
  then have 2: "map_option snd (apply_rules_to_parts fragment_lib ?X
        [(''word/document.xml'', [60])] (scenario_A ''r1'' ''ssn'') False) = Some ?r"
    unfolding fl run by simp
  from d f 1 run 2 show ?thesis
    by blast
qed
text \<open>
  C6 as stated fails for the comments part: a \<open>word/comments.xml\<close> that does not parse
  is not carried to the output of the cleaner, it is dropped like every comments part.
\<close>

theorem malformed_comments_part_counterexample:
  "fromstring (reads_as ssn_document [1]) [] = None \<and>
   clean_docx_parts (reads_as ssn_document [1])
     [(''word/document.xml'', [60]), (''word/comments.xml'', [])] =
   [(''word/document.xml'', [1])]"
  by code_simp

section \<open>The placeholders of the allowlist\<close>

text \<open>
  C2, at a failing input. The phrase \<open>Acme Corp\<close> is on the allowlist and stands in the
  text, which holds no digit. The allowlist replaces the phrase by the placeholder
  \<open>__BLUR_ALLOWLIST_1__\<close>; the regex rule for digits then matches the \<open>1\<close> of the
  placeholder and masks it; the restoring loop no longer finds the placeholder. The
  protected span is lost, the output holds the damaged placeholder, and one match is
  reported. With the allowlist rule alone the text comes back unchanged.
\<close>

theorem allowlist_placeholder_rewritten:
  "occurs ''Acme Corp'' ''Acme Corp sells things'' \<and>
   apply_rules fragment_lib ''Acme Corp sells things'' allowlist_only_playbook False =
     Some (''Acme Corp sells things'',
       \<lparr>total_matches = 0, matches_by_rule_type = [], matches_by_rule_id = []\<rparr>) \<and>
   apply_rules fragment_lib ''Acme Corp sells things'' allowlist_digits_playbook False =
     Some (''__BLUR_ALLOWLIST_[BLURRED]__ sells things'',
       \<lparr>total_matches = 1, matches_by_rule_type = [(''regex_patterns'', 1)],
        matches_by_rule_id = [(''r2'', 1)]\<rparr>)"
  by code_simp

text \<open>
  C5, at a failing input. The only rule is the allowlist rule for \<open>Acme Corp\<close>, and the
  phrase does not occur in the text, so no rule applies. The text holds the characters of
  the first placeholder, and the restoring loop, which runs over every placeholder whether
  or not it was put into the text, replaces them by the phrase.
\<close>

theorem placeholder_text_replaced:
  "\<not> occurs ''Acme Corp'' ''see __BLUR_ALLOWLIST_1__ here'' \<and>
   apply_rules fragment_lib ''see __BLUR_ALLOWLIST_1__ here'' allowlist_only_playbook False =
     Some (''see Acme Corp here'',
       \<lparr>total_matches = 0, matches_by_rule_type = [], matches_by_rule_id = []\<rparr>)"
  by code_simp



lemma occurs_Nil: "occurs [] s"
  by (cases s) auto

lemma occurs_prefix: "occurs (p @ q) s \<Longrightarrow> occurs p s"
proof (induction s)
  case Nil
  then show ?case by simp
next
  case (Cons c cs)
  show ?case
  proof (cases "take (length (p @ q)) (c # cs) = p @ q")
    case True
    then have "take (length p) (take (length (p @ q)) (c # cs)) = take (length p) (p @ q)"
      by simp
    then have "take (length p) (c # cs) = p"
      by (simp add: min_def)
    then show ?thesis by simp
  next
    case False
    with Cons show ?thesis by auto
  qed
qed

lemma replace_nonempty_absent: "\<not> occurs old s \<Longrightarrow> replace_nonempty old new s = s"
  by (induction s) auto

lemma py_replace_absent: "\<not> occurs old s \<Longrightarrow> py_replace s old new = s"
  using occurs_Nil [of s] by (auto simp: py_replace_def replace_nonempty_absent)
lemma dict_set_tokens_only:
  "tokens_only m \<Longrightarrow> tokens_only (dict_set m (placeholder_token n) v)"
  unfolding tokens_only_def using dict_set_values [of _ m "placeholder_token n" v]
  by (metis fst_conv)

lemma allowlist_phrases_absent:
  "\<forall>phrase\<in>set ps. \<not> occurs phrase text \<Longrightarrow> tokens_only ph \<Longrightarrow>
   \<exists>c' ph'. allowlist_phrases ps (text, c, ph) = (text, c', ph') \<and> tokens_only ph'"
proof (induction ps arbitrary: c ph)
  case Nil
  then show ?case by simp
next
  case (Cons p ps)
  from Cons.prems(1) have p: "\<not> occurs p text" and rest: "\<forall>phrase\<in>set ps. \<not> occurs phrase text"
    by simp_all
  have "tokens_only (dict_set ph (placeholder_token (c + 1)) p)"
    using Cons.prems(2) by (rule dict_set_tokens_only)
  from Cons.IH [OF rest this] show ?case
    by (simp add: Let_def py_replace_absent [OF p])
qed
lemma allowlist_patterns_no_match:
  "\<forall>entry\<in>set es. no_match L rule text entry \<Longrightarrow>
   allowlist_patterns L rule es (text, c, ph) = Some (text, c, ph)"
proof (induction es)
  case Nil
  show ?case by simp
next
  case (Cons e es)
  from Cons.prems have e: "no_match L rule text e" and "\<forall>entry\<in>set es. no_match L rule text entry"
    by simp_all
  with Cons.IH have ih: "allowlist_patterns L rule es (text, c, ph) = Some (text, c, ph)"
    by simp
  from e show ?case
    by (auto simp: no_match_def ih split: option.splits)
qed

lemma allowlist_rules_no_match:
  "\<forall>rule\<in>set rs. (\<forall>phrase\<in>set (phrases rule). \<not> occurs phrase text) \<and>
      (\<forall>entry\<in>set (patterns rule). no_match L rule text entry) \<Longrightarrow>
   tokens_only ph \<Longrightarrow>
   \<exists>c' ph'. allowlist_rules L rs (text, c, ph) = Some (text, c', ph') \<and> tokens_only ph'"
proof (induction rs arbitrary: c ph)
  case Nil
  then show ?case by simp
next
  case (Cons rule rs)
  from Cons.prems(1) have
    a: "\<forall>phrase\<in>set (phrases rule). \<not> occurs phrase text" and
    b: "\<forall>entry\<in>set (patterns rule). no_match L rule text entry" and
    rest: "\<forall>rule\<in>set rs. (\<forall>phrase\<in>set (phrases rule). \<not> occurs phrase text) \<and>
      (\<forall>entry\<in>set (patterns rule). no_match L rule text entry)"
    by simp_all
  from allowlist_phrases_absent [OF a Cons.prems(2)] obtain c1 ph1 where
    1: "allowlist_phrases (phrases rule) (text, c, ph) = (text, c1, ph1)" and t: "tokens_only ph1"
    by blast
  have 2: "allowlist_patterns L rule (patterns rule) (text, c1, ph1) = Some (text, c1, ph1)"
    using b by (rule allowlist_patterns_no_match)
  from Cons.IH [OF rest t] show ?case
    by (simp add: 1 2)
qed
lemma restore_tokens_only:
  "tokens_only ph \<Longrightarrow> \<not> occurs PLACEHOLDER_PREFIX text \<Longrightarrow> restore ph text = text"
proof (induction ph)
  case Nil
  show ?case by (simp add: restore_def)
next
  case (Cons kv ph)
  obtain k v where kv: "kv = (k, v)" by (cases kv)
  from Cons.prems(1) obtain n where k: "k = placeholder_token n" and rest: "tokens_only ph"
    by (auto simp: tokens_only_def kv)
  have "\<not> occurs k text"
    using Cons.prems(2) occurs_prefix [of PLACEHOLDER_PREFIX _ "text"]
    by (auto simp: k placeholder_token_def)
  then have "py_replace text k v = text"
    by (rule py_replace_absent)
  with Cons.IH [OF rest Cons.prems(2)] show ?case
    by (simp add: restore_def kv)
qed
lemma dictionary_items_no_match:
  "\<forall>item\<in>set items. re_finditer L (re_escape (fst item)) (case_insensitive rule) text = Some [] \<Longrightarrow>
   dictionary_items L rule pb d items (text, r) = Some (text, r)"
proof (induction items)
  case Nil
  show ?case by simp
next
  case (Cons it items)
  obtain target replacement where it: "it = (target, replacement)" by (cases it)
  from Cons show ?case
    by (simp add: it)
qed

lemma regex_entries_no_match:
  "\<forall>entry\<in>set es. no_match L rule text entry \<Longrightarrow>
   regex_entries L rule pb d es (text, r) = Some (text, r)"
proof (induction es)
  case Nil
  show ?case by simp
next
  case (Cons e es)
  from Cons.prems have e: "no_match L rule text e" and "\<forall>entry\<in>set es. no_match L rule text entry"
    by simp_all
  with Cons.IH have ih: "regex_entries L rule pb d es (text, r) = Some (text, r)"
    by simp
  from e show ?case
    by (auto simp: no_match_def ih split: option.splits)
qed
lemma rules_by_type_set:
  "set (rules_by_type pb ty) = {rule \<in> set (rules pb). rule_type rule = ty \<and> enabled rule}"
  by (auto simp: rules_by_type_def)

lemma rule_loop_no_match:
  "no_rule_applies L text pb \<Longrightarrow> set rs \<subseteq> {rule \<in> set (rules pb). enabled rule} \<Longrightarrow>
   rule_loop L pb d rs (text, r) = Some (text, r)"
proof (induction rs)
  case Nil
  show ?case by simp
next
  case (Cons rule rs)
  from Cons.prems(2) have mem: "rule \<in> set (rules pb)" "enabled rule"
    and rest: "set rs \<subseteq> {rule \<in> set (rules pb). enabled rule}"
    by auto
  from Cons.prems(1) mem have
    "rule_type rule = ''dictionary_entities'' \<longrightarrow>
       (\<forall>item\<in>set (dictionary rule).
          re_finditer L (re_escape (fst item)) (case_insensitive rule) text = Some [])"
    "rule_type rule = ''regex_patterns'' \<longrightarrow>
       (\<forall>entry\<in>set (patterns rule). no_match L rule text entry)"
    "rule_type rule = ''keyword_list'' \<longrightarrow>
       rule_keywords rule = [] \<or>
       re_finditer L (py_join ''|'' (map re_escape (rule_keywords rule)))
         (case_insensitive rule) text = Some []"
    unfolding no_rule_applies_def by blast+
  then have "apply_rule L text rule pb r d = Some (text, r)"
    by (auto simp: apply_rule_def apply_dictionary_def apply_regex_patterns_def
        apply_keywords_def dictionary_items_no_match regex_entries_no_match)
  with Cons.IH [OF Cons.prems(1) rest] show ?case
    by simp
qed
text \<open>
  Without such a clash C5 holds: when no rule applies and the text does not hold the prefix
  of the placeholders, \<open>apply_rules\<close> returns the text unchanged and the empty report,
  in a live run and in a dry run, for every regex and format library.
\<close>

lemma no_rule_applies_unchanged:
  assumes "no_rule_applies L text playbook" and "\<not> occurs PLACEHOLDER_PREFIX text"
  shows "apply_rules L text playbook dry_run = Some (text, empty_report)"
proof -
  let ?tys = "[''dictionary_entities'', ''regex_patterns'', ''keyword_list'']"
  have "\<forall>rule\<in>set (rules_by_type playbook ''allowlist'').
      (\<forall>phrase\<in>set (phrases rule). \<not> occurs phrase text) \<and>
      (\<forall>entry\<in>set (patterns rule). no_match L rule text entry)"
    using assms(1) unfolding no_rule_applies_def rules_by_type_set by blast
  moreover have "tokens_only []"
    by (simp add: tokens_only_def)
  ultimately obtain c ph where
    "allowlist_rules L (rules_by_type playbook ''allowlist'') (text, 0, []) = Some (text, c, ph)"
    and t: "tokens_only ph"
    using allowlist_rules_no_match by blast
  then have al: "apply_allowlist L text (rules_by_type playbook ''allowlist'') = Some (text, ph)"
    by (simp add: apply_allowlist_def)
  have "set (concat (map (rules_by_type playbook) ?tys)) \<subseteq>
      {rule \<in> set (rules playbook). enabled rule}"
    by (auto simp: rules_by_type_set)
  with assms(1) have
    "rule_loop L playbook dry_run (concat (map (rules_by_type playbook) ?tys)) (text, empty_report) =
       Some (text, empty_report)"
    by (rule rule_loop_no_match)
  then have "rule_type_loop L playbook dry_run ?tys (text, empty_report) = Some (text, empty_report)"
    by (simp only: rule_type_loop_concat)
  with al restore_tokens_only [OF t assms(2)] show ?thesis
    by (simp add: apply_rules_def del: rule_type_loop.simps)
qed


end
